theory Spec2Isabelle
  imports Main
begin

section \<open>Data model (packages/core/src/types/index.ts)\<close>

text \<open>
  Values of TypeScript's \<open>unknown\<close> and \<open>Record<string, unknown>\<close> (tool arguments,
  tool results, what \<open>JSON.parse\<close> returns) are modelled as JSON trees, with one more
  kind of value, a \<open>BigInt\<close>, which a tool body may return and \<open>JSON.stringify\<close> rejects.
  Numbers are restricted to integers; an object is an association list in property
  order, with no key twice. \<open>undefined\<close> is not a value of this type: a property that
  may be absent is an \<open>option\<close>.
\<close>

datatype json =
    JNull
  | JBool bool
  | JNum int
  | JStr string
  | JArr "json list"
  | JObj "(string \<times> json) list"
  | JBigInt int

datatype role = System | User | Assistant | Tool

record tool_call =
  call_id :: string
  call_name :: string
  arguments :: "(string \<times> json) list"

text \<open>\<open>ModelMessage\<close>. Strings are lists of code units, so \<open>length\<close> is the
  \<open>.length\<close> of the source.\<close>

record message =
  role :: role
  content :: string
  reasoning :: "string option"
  toolCallId :: "string option"
  msg_toolCalls :: "tool_call list option"

definition mk_message :: "role \<Rightarrow> string \<Rightarrow> message" where
  "mk_message r c =
     \<lparr>role = r, content = c, reasoning = None, toolCallId = None, msg_toolCalls = None\<rparr>"

definition tool_message :: "string \<Rightarrow> string \<Rightarrow> message" where
  "tool_message c cid =
     \<lparr>role = Tool, content = c, reasoning = None, toolCallId = Some cid, msg_toolCalls = None\<rparr>"

record token_usage =
  promptTokens :: int
  completionTokens :: int
  totalTokens :: int

record tool_schema =
  schema_name :: string
  schema_description :: string
  schema_parameters :: json

record model_request =
  req_messages :: "message list"
  req_tools :: "tool_schema list option"

record model_response =
  resp_message :: message
  resp_toolCalls :: "tool_call list option"
  resp_usage :: "token_usage option"

text \<open>
  Everything a run can throw. The payload of \<open>ToolFailure\<close>, \<open>ModelFailure\<close>,
  \<open>MiddlewareFailure\<close> and \<open>MemoryFailure\<close> is the message of the value thrown by the
  external tool body, model backend, middleware or memory provider. A \<open>TypeError\<close> is
  thrown by the platform; its payload names the expression that throws.
\<close>

datatype error =
    UnknownTool string
  | ToolNotAllowed string
  | ToolFailure string
  | ModelFailure string
  | MiddlewareFailure string
  | MemoryFailure string
  | TypeError string
  | TokenBudgetExceeded string
  | MaxStepsReached string
  | PlannerMaxExecutionSteps
  | PlannerTaskExceeded string
  | PlannerTaskFailed string error

text \<open>
  \<open>ModelProvider.complete\<close> is an external collaborator. It is modelled as a function
  of the request and of the number of calls made to it so far, so that two calls with
  the same request may answer differently; \<open>Inl\<close> is a rejected promise.
\<close>

type_synonym model_provider = "nat \<Rightarrow> model_request \<Rightarrow> error + model_response"

section \<open>Token estimation (memory/tokens.ts)\<close>

definition estimateTokens :: "string \<Rightarrow> nat" where
  \<comment> \<open>\<open>Math.ceil(text.length / 4)\<close>\<close>
  "estimateTokens text = (length text + 3) div 4"

definition estimateMessagesTokens :: "message list \<Rightarrow> nat" where
  "estimateMessagesTokens msgs = foldl (\<lambda>acc msg. acc + estimateTokens (content msg) + 4) 0 msgs"

text \<open>
  The loop of \<open>trimToTokenBudget\<close>: the first argument is \<open>rest\<close> read from index
  \<open>rest.length - 1\<close> down to \<open>0\<close> (newest first), \<open>result.unshift(msg)\<close> is a cons, and
  \<open>break\<close> returns the accumulator.
\<close>

fun trim_walk :: "message list \<Rightarrow> int \<Rightarrow> nat \<Rightarrow> message list \<Rightarrow> message list" where
  "trim_walk [] maxTokens tokens result = result"
| "trim_walk (msg # older) maxTokens tokens result =
     (let t = estimateTokens (content msg) + 4
      in if int (tokens + t) > maxTokens then result
         else trim_walk older maxTokens (tokens + t) (msg # result))"

definition trimToTokenBudget :: "message list \<Rightarrow> int \<Rightarrow> message list" where
  "trimToTokenBudget msgs maxTokens =
     (let system = filter (\<lambda>m. role m = System) msgs;
          rest = filter (\<lambda>m. role m \<noteq> System) msgs;
          tokens = estimateMessagesTokens system
      in system @ trim_walk (rev rest) maxTokens tokens [])"

section \<open>Memory providers (packages/memory)\<close>

text \<open>
  Each provider keeps a \<open>Map\<close> from session id to its history. The \<open>meta\<close> maps hold
  the \<open>MemoryEntry\<close> of a session without its random id and its timestamps.
\<close>

record memory_entry =
  entry_sessionId :: string
  entry_messages :: "message list"
  entry_agentName :: "string option"
  entry_tokenCount :: "nat option"

record read_options =
  read_sessionId :: "string option"

record write_options =
  write_sessionId :: "string option"
  write_agentName :: "string option"

definition session_of :: "string option \<Rightarrow> string" where
  \<comment> \<open>\<open>options.sessionId ?? 'default'\<close>\<close>
  "session_of sid = (case sid of None \<Rightarrow> ''default'' | Some s \<Rightarrow> s)"

definition truthy_id :: "string option \<Rightarrow> string option" where
  \<comment> \<open>\<open>if (sessionId)\<close>: undefined and the empty string are falsy; \<open>Some s\<close> is a truthy id\<close>
  "truthy_id sid = (case sid of None \<Rightarrow> None | Some s \<Rightarrow> if s = [] then None else Some s)"

definition slice_last :: "nat \<Rightarrow> 'a list \<Rightarrow> 'a list" where
  \<comment> \<open>\<open>xs.slice(-n)\<close>; \<open>-0\<close> is \<open>0\<close>, so \<open>n = 0\<close> keeps the whole array\<close>
  "slice_last n xs = (if n = 0 then xs else drop (length xs - n) xs)"

subsection \<open>BufferMemory\<close>

record buffer_memory =
  bm_maxMessages :: nat
  bm_maxTokens :: "int option"
  bm_store :: "string \<rightharpoonup> message list"
  bm_meta :: "string \<rightharpoonup> memory_entry"

definition buffer_read :: "buffer_memory \<Rightarrow> read_options \<Rightarrow> message list" where
  "buffer_read m opts =
     (let sessionId = session_of (read_sessionId opts);
          msgs = (case bm_store m sessionId of None \<Rightarrow> [] | Some ms \<Rightarrow> ms)
      in case bm_maxTokens m of
           None \<Rightarrow> msgs
         | Some mt \<Rightarrow> if mt \<noteq> 0 then trimToTokenBudget msgs mt else msgs)"

definition buffer_write :: "buffer_memory \<Rightarrow> message list \<Rightarrow> write_options \<Rightarrow> buffer_memory" where
  "buffer_write m msgs opts =
     (let sessionId = session_of (write_sessionId opts);
          toStore = filter (\<lambda>msg. role msg \<noteq> System) msgs;
          trimmed = (if length toStore > bm_maxMessages m
                     then slice_last (bm_maxMessages m) toStore else toStore)
      in m\<lparr>bm_store := (bm_store m)(sessionId \<mapsto> trimmed),
           bm_meta := (bm_meta m)(sessionId \<mapsto>
             \<lparr>entry_sessionId = sessionId, entry_messages = trimmed,
              entry_agentName = write_agentName opts, entry_tokenCount = None\<rparr>)\<rparr>)"

definition buffer_clear :: "buffer_memory \<Rightarrow> string option \<Rightarrow> buffer_memory" where
  "buffer_clear m sid =
     (case truthy_id sid of
        Some s \<Rightarrow> m\<lparr>bm_store := (bm_store m)(s := None), bm_meta := (bm_meta m)(s := None)\<rparr>
      | None \<Rightarrow> m\<lparr>bm_store := Map.empty, bm_meta := Map.empty\<rparr>)"

subsection \<open>SlidingWindowMemory\<close>

type_synonym turn = "message list"

record sliding_window_memory =
  sw_maxTokens :: int
  sw_maxTurns :: nat
  sw_sessions :: "string \<rightharpoonup> turn list"
  sw_meta :: "string \<rightharpoonup> memory_entry"

definition no_pending_calls :: "message \<Rightarrow> bool" where
  \<comment> \<open>\<open>!msg.toolCalls?.length\<close>\<close>
  "no_pending_calls msg = (case msg_toolCalls msg of None \<Rightarrow> True | Some cs \<Rightarrow> cs = [])"

fun group_loop :: "message list \<Rightarrow> turn list \<Rightarrow> message list \<Rightarrow> turn list" where
  "group_loop [] turns current = (if current \<noteq> [] then turns @ [current] else turns)"
| "group_loop (msg # msgs) turns current =
     (let current' = current @ [msg]
      in if role msg = Assistant \<and> no_pending_calls msg
         then group_loop msgs (turns @ [current']) []
         else group_loop msgs turns current')"

definition groupIntoTurns :: "message list \<Rightarrow> turn list" where
  "groupIntoTurns msgs = group_loop msgs [] []"

definition sliding_read :: "sliding_window_memory \<Rightarrow> read_options \<Rightarrow> message list" where
  "sliding_read m opts =
     (let sessionId = session_of (read_sessionId opts);
          turns = (case sw_sessions m sessionId of None \<Rightarrow> [] | Some ts \<Rightarrow> ts);
          msgs = concat turns
      in trimToTokenBudget msgs (sw_maxTokens m))"

definition sliding_write ::
  "sliding_window_memory \<Rightarrow> message list \<Rightarrow> write_options \<Rightarrow> sliding_window_memory" where
  "sliding_write m msgs opts =
     (let sessionId = session_of (write_sessionId opts);
          existing = (case sw_sessions m sessionId of None \<Rightarrow> [] | Some ts \<Rightarrow> ts);
          nonSystem = filter (\<lambda>msg. role msg \<noteq> System) msgs;
          newTurns = groupIntoTurns nonSystem;
          merged = slice_last (sw_maxTurns m) (existing @ newTurns);
          allMessages = concat merged
      in m\<lparr>sw_sessions := (sw_sessions m)(sessionId \<mapsto> merged),
           sw_meta := (sw_meta m)(sessionId \<mapsto>
             \<lparr>entry_sessionId = sessionId, entry_messages = allMessages,
              entry_agentName = write_agentName opts,
              entry_tokenCount = Some (estimateMessagesTokens allMessages)\<rparr>)\<rparr>)"

definition sliding_clear :: "sliding_window_memory \<Rightarrow> string option \<Rightarrow> sliding_window_memory" where
  "sliding_clear m sid =
     (case truthy_id sid of
        Some s \<Rightarrow> m\<lparr>sw_sessions := (sw_sessions m)(s := None), sw_meta := (sw_meta m)(s := None)\<rparr>
      | None \<Rightarrow> m\<lparr>sw_sessions := Map.empty, sw_meta := Map.empty\<rparr>)"

subsection \<open>SummarizingMemory\<close>

record session_data =
  sd_sessionId :: string
  summary :: "string option"
  activeMessages :: "message list"
  sd_agentName :: "string option"

record summarizing_memory =
  sm_model :: model_provider
  sm_modelCalls :: nat
  activeWindowTokens :: int
  summaryMaxTokens :: int
  summaryPrompt :: string
  sm_sessions :: "string \<rightharpoonup> session_data"

definition newline :: string where
  "newline = [CHR 0x0A]"

fun join :: "string \<Rightarrow> string list \<Rightarrow> string" where
  "join sep [] = []"
| "join sep [x] = x"
| "join sep (x # y # ys) = x @ sep @ join sep (y # ys)"

fun role_upper :: "role \<Rightarrow> string" where
  \<comment> \<open>\<open>m.role.toUpperCase()\<close>\<close>
  "role_upper System = ''SYSTEM''"
| "role_upper User = ''USER''"
| "role_upper Assistant = ''ASSISTANT''"
| "role_upper Tool = ''TOOL''"

definition slice_to :: "int \<Rightarrow> 'a list \<Rightarrow> 'a list" where
  \<comment> \<open>\<open>s.slice(0, e)\<close>; a negative end counts from the end of the string\<close>
  "slice_to e s = (if 0 \<le> e then take (nat e) s else take (length s - nat (- e)) s)"

definition truthy_summary :: "string option \<Rightarrow> string option" where
  \<comment> \<open>\<open>session.summary ? ... : ...\<close>: null and the empty string are falsy\<close>
  "truthy_summary s = (case s of None \<Rightarrow> None | Some t \<Rightarrow> if t = [] then None else Some t)"

definition summarizing_read :: "summarizing_memory \<Rightarrow> read_options \<Rightarrow> message list" where
  "summarizing_read m opts =
     (let sessionId = session_of (read_sessionId opts)
      in case sm_sessions m sessionId of
           None \<Rightarrow> []
         | Some session \<Rightarrow>
             (case truthy_summary (summary session) of
                None \<Rightarrow> []
              | Some s \<Rightarrow> [mk_message System (''[Conversation summary so far]'' @ newline @ s)])
             @ activeMessages session)"

definition compress_request :: "summarizing_memory \<Rightarrow> session_data \<Rightarrow> model_request" where
  "compress_request m session =
     (let msgs = activeMessages session;
          splitAt = length msgs div 2;
          toCompress = take splitAt msgs;
          existingSummary = (case truthy_summary (summary session) of
             None \<Rightarrow> []
           | Some s \<Rightarrow> ''Previous summary:'' @ newline @ s @ newline @ newline
                        @ ''New conversation to add:'');
          compressInput = join newline (map (\<lambda>msg. role_upper (role msg) @ '': '' @ content msg) toCompress)
      in \<lparr>req_messages =
            [mk_message System (summaryPrompt m),
             mk_message User (existingSummary @ newline @ compressInput)],
          req_tools = None\<rparr>)"

definition compress :: "summarizing_memory \<Rightarrow> session_data \<Rightarrow> error + session_data" where
  "compress m session =
     (let msgs = activeMessages session;
          splitAt = length msgs div 2;
          toKeep = drop splitAt msgs
      in case sm_model m (sm_modelCalls m) (compress_request m session) of
           Inl e \<Rightarrow> Inl e
         | Inr response \<Rightarrow>
             (let rawSummary = content (resp_message response);
                  trimmedSummary = slice_to (summaryMaxTokens m * 4) rawSummary
              in Inr (session\<lparr>summary := Some trimmedSummary, activeMessages := toKeep\<rparr>)))"

text \<open>
  \<open>write\<close> assigns \<open>existing.activeMessages\<close> before it compresses, and \<open>existing\<close> is
  the object held by the map when the session is known: when the model call fails, a
  known session keeps the uncompressed window and a new session is not stored.
\<close>

definition pending_session :: "summarizing_memory \<Rightarrow> message list \<Rightarrow> write_options \<Rightarrow> session_data" where
  \<comment> \<open>\<open>existing\<close> after \<open>existing.activeMessages = nonSystem\<close>\<close>
  "pending_session m msgs opts =
     (let sessionId = session_of (write_sessionId opts);
          existing = (case sm_sessions m sessionId of
             None \<Rightarrow> \<lparr>sd_sessionId = sessionId, summary = None, activeMessages = [],
                       sd_agentName = write_agentName opts\<rparr>
           | Some s \<Rightarrow> s);
          nonSystem = filter (\<lambda>msg. role msg \<noteq> System) msgs
      in existing\<lparr>activeMessages := nonSystem\<rparr>)"

definition summarizing_write ::
  "summarizing_memory \<Rightarrow> message list \<Rightarrow> write_options \<Rightarrow> (error + unit) \<times> summarizing_memory" where
  "summarizing_write m msgs opts =
     (let sessionId = session_of (write_sessionId opts);
          existing = pending_session m msgs opts;
          tokens = estimateMessagesTokens (activeMessages existing)
      in if int tokens > activeWindowTokens m
         then (case compress m existing of
                 Inl e \<Rightarrow>
                   (Inl e, m\<lparr>sm_modelCalls := sm_modelCalls m + 1,
                             sm_sessions := (case sm_sessions m sessionId of
                                None \<Rightarrow> sm_sessions m
                              | Some s \<Rightarrow> (sm_sessions m)(sessionId \<mapsto> existing))\<rparr>)
               | Inr compressed \<Rightarrow>
                   (Inr (), m\<lparr>sm_modelCalls := sm_modelCalls m + 1,
                              sm_sessions := (sm_sessions m)(sessionId \<mapsto> compressed)\<rparr>))
         else (Inr (), m\<lparr>sm_sessions := (sm_sessions m)(sessionId \<mapsto> existing)\<rparr>))"

definition summarizing_clear :: "summarizing_memory \<Rightarrow> string option \<Rightarrow> summarizing_memory" where
  "summarizing_clear m sid =
     (case truthy_id sid of
        Some s \<Rightarrow> m\<lparr>sm_sessions := (sm_sessions m)(s := None)\<rparr>
      | None \<Rightarrow> m\<lparr>sm_sessions := Map.empty\<rparr>)"

subsection \<open>Providers from outside the package\<close>

text \<open>
  \<open>MemoryProvider\<close> is an interface: \<open>read\<close> and \<open>write\<close>, and the optional \<open>clear\<close> and
  \<open>entries\<close>. A provider that is not one of this package is modelled by what it keeps
  (a value of type \<open>'s\<close>) and by its methods as functions of it; \<open>Inl\<close> is a rejected
  promise, and \<open>ext_clear = None\<close> is a provider that has no \<open>clear\<close>. A \<open>read\<close> leaves
  what the provider keeps as it is.
\<close>

record 's external_memory =
  ext_state :: 's
  ext_read :: "'s \<Rightarrow> read_options \<Rightarrow> error + message list"
  ext_write :: "'s \<Rightarrow> message list \<Rightarrow> write_options \<Rightarrow> (error + unit) \<times> 's"
  ext_clear :: "('s \<Rightarrow> string option \<Rightarrow> (error + unit) \<times> 's) option"

subsection \<open>CompositeMemory\<close>

text \<open>
  A composite wraps any list of providers: providers of this package (composites
  among them) and providers from outside. The constructor rejects an empty list; the
  functions below are defined on it all the same.

  The outcome of a memory operation is its value or the list of the errors it is
  rejected with. \<open>Promise.all\<close> starts the operation of every provider, so every provider
  ends in the state its own operation leaves; when several of them reject, the promise
  of the composite rejects with the error of the one that settles first, which is one
  of the list and is not determined here. An empty list of errors is a fulfilled
  promise.
\<close>

datatype read_strategy = FirstHit | Merge

datatype 's memory_provider =
    Buffer buffer_memory
  | SlidingWindow sliding_window_memory
  | Summarizing summarizing_memory
  | External "'s external_memory"
  | Composite "'s memory_provider list" read_strategy

fun first_hit :: "(error list + message list) list \<Rightarrow> error list + message list" where
  \<comment> \<open>the \<open>for\<close> of \<open>read\<close>: each provider is awaited in turn\<close>
  "first_hit [] = Inr []"
| "first_hit (Inl es # rest) = Inl es"
| "first_hit (Inr msgs # rest) = (if length msgs > 0 then Inr msgs else first_hit rest)"

fun all_of :: "(error list + 'a) list \<Rightarrow> error list + 'a list" where
  \<comment> \<open>\<open>Promise.all\<close>: the values in order, or the errors of the promises that reject\<close>
  "all_of [] = Inr []"
| "all_of (Inl es # rest) = (case all_of rest of Inl es' \<Rightarrow> Inl (es @ es') | Inr xs \<Rightarrow> Inl es)"
| "all_of (Inr x # rest) = (case all_of rest of Inl es' \<Rightarrow> Inl es' | Inr xs \<Rightarrow> Inr (x # xs))"

definition fingerprint :: "message \<Rightarrow> role \<times> string" where
  \<comment> \<open>the key \<open>`${msg.role}:${msg.content.slice(0, 100)}`\<close>\<close>
  "fingerprint msg = (role msg, take 100 (content msg))"

fun merge_loop :: "message list \<Rightarrow> (role \<times> string) list \<Rightarrow> message list \<Rightarrow> message list" where
  "merge_loop [] seen merged = merged"
| "merge_loop (msg # msgs) seen merged =
     (if fingerprint msg \<in> set seen then merge_loop msgs seen merged
      else merge_loop msgs (fingerprint msg # seen) (merged @ [msg]))"

fun memory_read :: "'s memory_provider \<Rightarrow> read_options \<Rightarrow> error list + message list" where
  "memory_read (Buffer m) opts = Inr (buffer_read m opts)"
| "memory_read (SlidingWindow m) opts = Inr (sliding_read m opts)"
| "memory_read (Summarizing m) opts = Inr (summarizing_read m opts)"
| "memory_read (External e) opts =
     (case ext_read e (ext_state e) opts of Inl err \<Rightarrow> Inl [err] | Inr msgs \<Rightarrow> Inr msgs)"
| "memory_read (Composite providers FirstHit) opts =
     first_hit (map (\<lambda>p. memory_read p opts) providers)"
| "memory_read (Composite providers Merge) opts =
     (case all_of (map (\<lambda>p. memory_read p opts) providers) of
        Inl es \<Rightarrow> Inl es
      | Inr all \<Rightarrow> Inr (merge_loop (concat all) [] []))"

text \<open>
  \<open>memory_clear p sid\<close> is the call \<open>p.clear?.(sessionId)\<close> that \<open>CompositeMemory.clear\<close>
  makes for each provider it wraps: a provider that has no \<open>clear\<close> is skipped and stays
  as it is. The providers of this package all have one.
\<close>

fun memory_clear :: "'s memory_provider \<Rightarrow> string option \<Rightarrow> error list \<times> 's memory_provider" where
  "memory_clear (Buffer m) sid = ([], Buffer (buffer_clear m sid))"
| "memory_clear (SlidingWindow m) sid = ([], SlidingWindow (sliding_clear m sid))"
| "memory_clear (Summarizing m) sid = ([], Summarizing (summarizing_clear m sid))"
| "memory_clear (External e) sid =
     (case ext_clear e of
        None \<Rightarrow> ([], External e)
      | Some clear \<Rightarrow>
          (case clear (ext_state e) sid of
             (Inl err, s) \<Rightarrow> ([err], External (e\<lparr>ext_state := s\<rparr>))
           | (Inr u, s) \<Rightarrow> ([], External (e\<lparr>ext_state := s\<rparr>))))"
| "memory_clear (Composite providers strategy) sid =
     (let results = map (\<lambda>p. memory_clear p sid) providers
      in (concat (map fst results), Composite (map snd results) strategy))"

fun memory_write ::
  "'s memory_provider \<Rightarrow> message list \<Rightarrow> write_options \<Rightarrow> error list \<times> 's memory_provider" where
  "memory_write (Buffer m) msgs opts = ([], Buffer (buffer_write m msgs opts))"
| "memory_write (SlidingWindow m) msgs opts = ([], SlidingWindow (sliding_write m msgs opts))"
| "memory_write (Summarizing m) msgs opts =
     (case summarizing_write m msgs opts of
        (Inl err, m') \<Rightarrow> ([err], Summarizing m')
      | (Inr u, m') \<Rightarrow> ([], Summarizing m'))"
| "memory_write (External e) msgs opts =
     (case ext_write e (ext_state e) msgs opts of
        (Inl err, s) \<Rightarrow> ([err], External (e\<lparr>ext_state := s\<rparr>))
      | (Inr u, s) \<Rightarrow> ([], External (e\<lparr>ext_state := s\<rparr>)))"
| "memory_write (Composite providers strategy) msgs opts =
     (let results = map (\<lambda>p. memory_write p msgs opts) providers
      in (concat (map fst results), Composite (map snd results) strategy))"

section \<open>Steps and execution state (types/index.ts, context/factory.ts)\<close>

datatype task_status = Pending | InProgress | Done | Failed

record plan_task =
  task_id :: string
  description :: string
  dependsOn :: "string list option"
  status :: task_status
  task_result :: "string option"

text \<open>
  \<open>ReasoningStep\<close>, a union tagged by \<open>type\<close>; the constructor arguments are the fields
  of each interface in declaration order, \<open>engine\<close> last. A \<open>ToolResultStep\<close> carries
  \<open>result\<close> (\<open>null\<close> is \<open>JNull\<close>) and the optional \<open>error\<close>. The \<open>needsRevision\<close> of a
  \<open>ReflectionStep\<close> is declared a boolean and holds whatever the parsed critique has
  under \<open>needs_revision\<close>, \<open>None\<close> when it has nothing.
\<close>

datatype step =
    ThoughtStep string string
  | PlanStep "plan_task list" string
  | ToolCallStep string "(string \<times> json) list" string string
  | ToolResultStep string string json "string option" string
  | ReflectionStep string "json option" string
  | ResponseStep string string

datatype step_type = Thought | Plan | Tool_call | Tool_result | Reflection | Response

fun type_of :: "step \<Rightarrow> step_type" where
  "type_of (ThoughtStep c e) = Thought"
| "type_of (PlanStep ts e) = Plan"
| "type_of (ToolCallStep n a c e) = Tool_call"
| "type_of (ToolResultStep n c r err e) = Tool_result"
| "type_of (ReflectionStep a n e) = Reflection"
| "type_of (ResponseStep c e) = Response"

record execution_state =
  steps :: "step list"
  messages :: "message list"
  toolCalls :: "(tool_call \<times> json) list"
  usage :: token_usage

section \<open>Events and middleware (event/emitter.ts, middleware/pipeline.ts)\<close>

datatype scope = RunBefore | RunAfter | StepBefore | StepAfter | ToolBefore | ToolAfter

datatype scope_spec = One scope | Many "scope list"

text \<open>
  A middleware body is external code. It is modelled as a script: observable effects
  of its own, calls of the continuation \<open>next\<close> it was given, which it awaits, and a
  throw. A script may call \<open>next\<close> never, once or several times. The execution state
  it is handed is documented as "do not mutate": a script does not touch the steps,
  messages or tool calls of the run.
\<close>

datatype mw_action = Effect string | CallNext | Throw string

record middleware =
  mw_name :: "string option"
  mw_scope :: "scope_spec option"
  mw_run :: "mw_action list"

datatype payload =
    ToolBeforePayload string "(string \<times> json) list"
  | ToolAfterResult string json
  | ToolAfterError string string
  | StepPayload step

text \<open>
  The observable trace of a run, in the order in which things happen. \<open>Emitted\<close> is a
  call of \<open>emitter.emit\<close>, with the event, its payload and the execution state at that
  moment: \<open>emit\<close> calls the listeners of the event before it returns, so this is the
  state they find (what they do is external, and nothing waits for it).
  \<open>Entered scope i\<close> is the start of the body of the middleware at index \<open>i\<close> of the list
  filtered for \<open>scope\<close>, \<open>Effected\<close> is an effect of a middleware body, and \<open>Invoked\<close> is
  the call of the body of a tool with its arguments.
\<close>

datatype event =
    Emitted string payload execution_state
  | Entered scope nat
  | Effected string
  | Invoked string "(string \<times> json) list"

record run_state = execution_state +
  events :: "event list"
  modelCalls :: nat

definition emptyState :: run_state where
  "emptyState =
     \<lparr>steps = [], messages = [], toolCalls = [],
      usage = \<lparr>promptTokens = 0, completionTokens = 0, totalTokens = 0\<rparr>,
      events = [], modelCalls = 0\<rparr>"

definition snapshot :: "run_state \<Rightarrow> execution_state" where
  \<comment> \<open>\<open>ctx.state\<close> as it is at a moment of the run\<close>
  "snapshot st = \<lparr>steps = steps st, messages = messages st, toolCalls = toolCalls st,
                   usage = usage st\<rparr>"

definition emit :: "string \<Rightarrow> payload \<Rightarrow> run_state \<Rightarrow> run_state" where
  "emit name p st = st\<lparr>events := events st @ [Emitted name p (snapshot st)]\<rparr>"

definition matches :: "scope \<Rightarrow> middleware \<Rightarrow> bool" where
  \<comment> \<open>the filter of \<open>MiddlewarePipeline.run\<close>; an empty array is truthy and matches nothing\<close>
  "matches sc m =
     (case mw_scope m of
        None \<Rightarrow> True
      | Some (One s) \<Rightarrow> sc \<in> set [s]
      | Some (Many scopes) \<Rightarrow> sc \<in> set scopes)"

text \<open>
  \<open>dispatch\<close> of \<open>MiddlewarePipeline.run\<close>, with the body of the middleware at \<open>index\<close>
  run by \<open>run_body\<close>. Both return the outcome and the events that happened, in order;
  \<open>next\<close> is \<open>dispatch (index + 1)\<close>, and an error thrown below an awaited \<open>next()\<close>
  ends the calling body too.
\<close>

function dispatch :: "middleware list \<Rightarrow> scope \<Rightarrow> nat \<Rightarrow> (error + unit) \<times> event list"
  and run_body :: "middleware list \<Rightarrow> scope \<Rightarrow> nat \<Rightarrow> mw_action list \<Rightarrow> (error + unit) \<times> event list"
where
  "dispatch scoped sc index =
     (if index \<ge> length scoped then (Inr (), [])
      else (case run_body scoped sc index (mw_run (scoped ! index)) of
              (r, es) \<Rightarrow> (r, Entered sc index # es)))"
| "run_body scoped sc index [] = (Inr (), [])"
| "run_body scoped sc index (Effect e # rest) =
     (case run_body scoped sc index rest of (r, es) \<Rightarrow> (r, Effected e # es))"
| "run_body scoped sc index (CallNext # rest) =
     (case dispatch scoped sc (index + 1) of
        (Inl err, es) \<Rightarrow> (Inl err, es)
      | (Inr u, es) \<Rightarrow> (case run_body scoped sc index rest of (r, es') \<Rightarrow> (r, es @ es')))"
| "run_body scoped sc index (Throw e # rest) = (Inl (MiddlewareFailure e), [])"
  by pat_completeness auto
termination
  by (relation "measures
       [\<lambda>x. case x of Inl (scoped, sc, index) \<Rightarrow> 2 * (length scoped - index)
                      | Inr (scoped, sc, index, body) \<Rightarrow> 2 * (length scoped - index) - 1,
        \<lambda>x. case x of Inl (scoped, sc, index) \<Rightarrow> 0
                      | Inr (scoped, sc, index, body) \<Rightarrow> length body]")
     auto

definition middleware_run :: "middleware list \<Rightarrow> scope \<Rightarrow> run_state \<Rightarrow> (error + unit) \<times> run_state" where
  "middleware_run registered sc st =
     (let scoped = filter (matches sc) registered
      in case dispatch scoped sc 0 of (r, es) \<Rightarrow> (r, st\<lparr>events := events st @ es\<rparr>))"

text \<open>The indices of the middleware bodies started in a trace, in order.\<close>

fun entered_indices :: "event list \<Rightarrow> nat list" where
  "entered_indices [] = []"
| "entered_indices (Entered sc i # es) = i # entered_indices es"
| "entered_indices (e # es) = entered_indices es"

text \<open>\<open>calls_next\<close>: the script reaches a call of \<open>next\<close> (before any throw).
  \<open>reach\<close>: how far down a chain the calls of \<open>next\<close> lead.\<close>

fun calls_next :: "mw_action list \<Rightarrow> bool" where
  "calls_next [] = False"
| "calls_next (Effect e # rest) = calls_next rest"
| "calls_next (CallNext # rest) = True"
| "calls_next (Throw e # rest) = False"

fun reach :: "middleware list \<Rightarrow> nat" where
  "reach [] = 0"
| "reach (m # ms) = Suc (if calls_next (mw_run m) then reach ms else 0)"

definition next_count :: "middleware \<Rightarrow> nat" where
  "next_count m = length (filter (\<lambda>a. a = CallNext) (mw_run m))"

section \<open>Tool registry and the tool invocation protocol (tool/registry.ts, reasoning/context.ts)\<close>

text \<open>
  A tool body is external code: a function of the arguments that returns a value (a
  tool that returns \<open>undefined\<close> is not modelled) or throws; \<open>Inl msg\<close> is a throw of a value
  whose message is \<open>msg\<close>. As a middleware body, it leaves the execution state alone.
\<close>

record tool_definition =
  schema :: tool_schema
  execute :: "(string \<times> json) list \<Rightarrow> string + json"

type_synonym tool_registry = "(string \<times> tool_definition) list"

fun map_set :: "'k \<Rightarrow> 'v \<Rightarrow> ('k \<times> 'v) list \<Rightarrow> ('k \<times> 'v) list" where
  \<comment> \<open>\<open>Map.prototype.set\<close>: a known key keeps its place\<close>
  "map_set k v [] = [(k, v)]"
| "map_set k v ((k', v') # rest) = (if k' = k then (k, v) # rest else (k', v') # map_set k v rest)"

definition register :: "tool_definition \<Rightarrow> tool_registry \<Rightarrow> tool_registry" where
  "register tool reg = map_set (schema_name (schema tool)) tool reg"

definition registry_get :: "tool_registry \<Rightarrow> string \<Rightarrow> tool_definition option" where
  "registry_get reg name = map_of reg name"

definition getSchemas :: "tool_registry \<Rightarrow> tool_schema list" where
  "getSchemas reg = map (\<lambda>(k, t). schema t) reg"

definition isAllowed :: "string \<Rightarrow> string list option \<Rightarrow> bool" where
  "isAllowed name allowed = (case allowed of None \<Rightarrow> True | Some names \<Rightarrow> name \<in> set names)"

text \<open>\<open>AgentPolicy\<close>: its other fields (\<open>maxSteps\<close>, \<open>maxCost\<close>, \<open>timeout\<close>,
  \<open>maxParallelTools\<close>) are read by no code.\<close>

record agent_policy =
  allowedTools :: "string list option"
  tokenBudget :: "int option"

text \<open>What the planner reads of an entry of a parsed plan.\<close>

record raw_task =
  raw_id :: "string option"
  raw_description :: string
  raw_dependsOn :: "string list option"

text \<open>
  \<open>ReasoningContext\<close> with the pieces \<open>createReasoningContext\<close> closes over; \<open>input\<close> is
  \<open>ctx.input\<close>. The last six fields are the platform functions the code calls.
  \<open>stringify\<close> is \<open>JSON.stringify\<close>, \<open>None\<close> when it throws its \<open>TypeError\<close> (on a \<open>BigInt\<close>).
  \<open>parse_json\<close> is \<open>JSON.parse\<close>, \<open>None\<close> when it throws. \<open>parse_tasks\<close> is \<open>JSON.parse\<close>
  followed by the reads of \<open>_makePlan\<close>, which stand in the same \<open>try\<close>: \<open>None\<close> when any
  of them throws. \<open>to_number\<close> is \<open>Number\<close> on a string, \<open>None\<close> for \<open>NaN\<close>, and
  \<open>number_text\<close> is \<open>String\<close> on a number. \<open>randomUUID\<close> is indexed by the position of the
  task that needs an id.
\<close>

record rctx =
  input :: string
  model :: model_provider
  tools :: tool_registry
  policy :: agent_policy
  systemPrompt :: "string option"
  middlewares :: "middleware list"
  stringify :: "json \<Rightarrow> string option"
  parse_tasks :: "string \<Rightarrow> raw_task list option"
  parse_json :: "string \<Rightarrow> json option"
  to_number :: "string \<Rightarrow> int option"
  number_text :: "int \<Rightarrow> string"
  randomUUID :: "nat \<Rightarrow> string"

definition pushStep :: "step \<Rightarrow> run_state \<Rightarrow> run_state" where
  "pushStep s st = emit ''step:reasoning'' (StepPayload s) (st\<lparr>steps := steps st @ [s]\<rparr>)"

definition push_message :: "message \<Rightarrow> run_state \<Rightarrow> run_state" where
  \<comment> \<open>\<open>ctx.state.messages.push(m)\<close>\<close>
  "push_message m st = st\<lparr>messages := messages st @ [m]\<rparr>"

definition record_call ::
  "string \<Rightarrow> (string \<times> json) list \<Rightarrow> string \<Rightarrow> json \<Rightarrow> string option \<Rightarrow> run_state \<Rightarrow> run_state" where
  \<comment> \<open>\<open>ctx.state.steps.push(resultStep)\<close>, then \<open>ctx.state.toolCalls.push(...)\<close>\<close>
  "record_call name args callId result err st =
     (let st1 = st\<lparr>steps := steps st @ [ToolResultStep name callId result err ''runtime'']\<rparr>
      in st1\<lparr>toolCalls := toolCalls st1
               @ [(\<lparr>call_id = callId, call_name = name, arguments = args\<rparr>, result)]\<rparr>)"

definition invoke ::
  "tool_definition \<Rightarrow> string \<Rightarrow> (string \<times> json) list \<Rightarrow> run_state \<Rightarrow> (string + json) \<times> run_state" where
  \<comment> \<open>\<open>tool.execute(args, ctx)\<close>\<close>
  "invoke tool name args st = (execute tool args, st\<lparr>events := events st @ [Invoked name args]\<rparr>)"

text \<open>
  \<open>callTool\<close>. The object pushed to \<open>messages\<close> is built first, and \<open>JSON.stringify\<close> is
  evaluated in building it, after the pushes to \<open>steps\<close> and \<open>toolCalls\<close>: when it throws,
  the call ends there with its \<open>TypeError\<close>. On the failure path this stands in the
  \<open>catch\<close> block, so the \<open>TypeError\<close> is thrown in place of the tool's error.
\<close>

definition callTool ::
  "rctx \<Rightarrow> string \<Rightarrow> (string \<times> json) list \<Rightarrow> string \<Rightarrow> run_state \<Rightarrow> (error + json) \<times> run_state" where
  "callTool rc name args callId st =
     (case registry_get (tools rc) name of
        None \<Rightarrow> (Inl (UnknownTool name), st)
      | Some tool \<Rightarrow>
          if \<not> isAllowed name (allowedTools (policy rc)) then (Inl (ToolNotAllowed name), st)
          else
            (let callStep = ToolCallStep name args callId ''runtime'';
                 st1 = emit ''tool:before'' (ToolBeforePayload name args) st
             in case middleware_run (middlewares rc) ToolBefore st1 of
                  (Inl e, st2) \<Rightarrow> (Inl e, st2)
                | (Inr u, st2) \<Rightarrow>
                    (case invoke tool name args st2 of
                       (Inl err, st3) \<Rightarrow>
                         (let st4 = record_call name args callId JNull (Some err) st3
                          in case stringify rc (JObj [(''error'', JStr err)]) of
                               None \<Rightarrow> (Inl (TypeError ''JSON.stringify''), st4)
                             | Some text \<Rightarrow>
                                 (let st5 = push_message (tool_message text callId) st4;
                                      st6 = emit ''tool:after'' (ToolAfterError name err) st5
                                  in case middleware_run (middlewares rc) ToolAfter st6 of
                                       (Inl e, st7) \<Rightarrow> (Inl e, st7)
                                     | (Inr u, st7) \<Rightarrow> (Inl (ToolFailure err), st7)))
                     | (Inr result, st3) \<Rightarrow>
                         (let st4 = record_call name args callId result None st3
                          in case stringify rc result of
                               None \<Rightarrow> (Inl (TypeError ''JSON.stringify''), st4)
                             | Some text \<Rightarrow>
                                 (let st5 = push_message (tool_message text callId) st4;
                                      st6 = emit ''tool:after'' (ToolAfterResult name result) st5
                                  in case middleware_run (middlewares rc) ToolAfter st6 of
                                       (Inl e, st7) \<Rightarrow> (Inl e, st7)
                                     | (Inr u, st7) \<Rightarrow> (Inr result, st7))))))"

section \<open>Reasoning utilities (packages/reasoning/src/utils.ts)\<close>

subsection \<open>Strings\<close>

text \<open>
  The regular expressions of the source, on strings of code units below 256: tag names
  match without regard to ASCII case (flag \<open>i\<close>), \<open>[\s\S]*?\<close> runs to the nearest closing
  tag, and \<open>trim\<close> removes the white space and line terminators of JavaScript.
\<close>

definition lower_char :: "char \<Rightarrow> char" where
  "lower_char c = (let n = (of_char c :: nat) in if 65 \<le> n \<and> n \<le> 90 then char_of (n + 32) else c)"

fun starts_with_ci :: "string \<Rightarrow> string \<Rightarrow> bool" where
  "starts_with_ci [] s = True"
| "starts_with_ci (p # ps) [] = False"
| "starts_with_ci (p # ps) (c # cs) = (lower_char p = lower_char c \<and> starts_with_ci ps cs)"

fun find_ci :: "string \<Rightarrow> string \<Rightarrow> nat option" where
  \<comment> \<open>how many code units precede the first occurrence of the tag\<close>
  "find_ci t [] = (if t = [] then Some 0 else None)"
| "find_ci t (c # cs) =
     (if starts_with_ci t (c # cs) then Some 0 else map_option Suc (find_ci t cs))"

function strip_tags :: "string \<Rightarrow> string \<Rightarrow> string \<Rightarrow> string" where
  \<comment> \<open>\<open>s.replace(/<open>[\s\S]*?<close>/gi, '')\<close>\<close>
  "strip_tags opn cls [] = []"
| "strip_tags opn cls (c # cs) =
     (if opn \<noteq> [] \<and> starts_with_ci opn (c # cs)
      then (case find_ci cls (drop (length opn) (c # cs)) of
              None \<Rightarrow> c # strip_tags opn cls cs
            | Some k \<Rightarrow> strip_tags opn cls (drop (length opn + k + length cls) (c # cs)))
      else c # strip_tags opn cls cs)"
  by pat_completeness auto
termination
  by (relation "measure (\<lambda>(opn, cls, s). length s)") (auto simp: neq_Nil_conv)

definition is_space :: "char \<Rightarrow> bool" where
  "is_space c = ((of_char c :: nat) \<in> {9, 10, 11, 12, 13, 32, 160})"

definition trim :: "string \<Rightarrow> string" where
  "trim s = rev (dropWhile is_space (rev (dropWhile is_space s)))"

definition extractText :: "string \<Rightarrow> string" where
  "extractText c =
     trim (strip_tags ''<thought>'' ''</thought>'' (strip_tags ''<thinking>'' ''</thinking>'' c))"

fun find_cs :: "string \<Rightarrow> string \<Rightarrow> nat option" where
  \<comment> \<open>as \<open>find_ci\<close>, with regard to case\<close>
  "find_cs t [] = (if t = [] then Some 0 else None)"
| "find_cs t (c # cs) =
     (if take (length t) (c # cs) = t then Some 0 else map_option Suc (find_cs t cs))"

text \<open>
  The first match of \<open>/```(?:json)?\s*([\s\S]*?)```/\<close>: the text before it, its group and
  the text after it.
\<close>

definition fence :: string where
  "fence = [CHR 0x60, CHR 0x60, CHR 0x60]"

definition fenced :: "string \<Rightarrow> (string \<times> string \<times> string) option" where
  "fenced text =
     (case find_cs fence text of
        None \<Rightarrow> None
      | Some i \<Rightarrow>
          (let after = drop (i + 3) text;
               after1 = (if take 4 after = ''json'' then drop 4 after else after);
               after2 = dropWhile is_space after1
           in case find_cs fence after2 of
                None \<Rightarrow> None
              | Some k \<Rightarrow> Some (take i text, take k after2, drop (k + 3) after2)))"

definition parseJSON_text :: "string \<Rightarrow> string" where
  \<comment> \<open>the text \<open>parseJSON\<close> hands to \<open>JSON.parse\<close>\<close>
  "parseJSON_text text = trim (case fenced text of None \<Rightarrow> text | Some (pre, raw, post) \<Rightarrow> raw)"

definition critique_text :: "string \<Rightarrow> string" where
  \<comment> \<open>\<open>content.replace(/```(?:json)?\s*([\s\S]*?)```/, '$1').trim()\<close>\<close>
  "critique_text text =
     trim (case fenced text of None \<Rightarrow> text | Some (pre, raw, post) \<Rightarrow> pre @ raw @ post)"

text \<open>The decimal digits of an integer: what \<open>String\<close> makes of a \<open>BigInt\<close>.\<close>

function show_nat :: "nat \<Rightarrow> string" where
  "show_nat n = (if n < 10 then [char_of (48 + n)] else show_nat (n div 10) @ [char_of (48 + n mod 10)])"
  by pat_completeness auto
termination
  by (relation "measure (\<lambda>n. n)") auto

declare show_nat.simps [simp del]

definition show_int :: "int \<Rightarrow> string" where
  "show_int i = (if i < 0 then ''-'' @ show_nat (nat (- i)) else show_nat (nat i))"

subsection \<open>Values\<close>

text \<open>
  What JavaScript does with a value where the code converts one: \<open>String(v)\<close> and a
  template literal (\<open>js_String\<close>, and \<open>js_text\<close> for a property that may be absent; a
  number is printed by the platform's \<open>number_text\<close>),
  \<open>xs.join(sep)\<close>, the test of a condition (\<open>js_truthy\<close>), a property read \<open>v.k\<close> on a
  value that is not \<open>null\<close> (\<open>property\<close>; the keys read are no properties of strings or
  arrays), and the conversion to a number that \<open>>=\<close> makes of its left operand
  (\<open>js_number\<close>, \<open>None\<close> for \<open>NaN\<close>).
\<close>

fun js_String :: "rctx \<Rightarrow> json \<Rightarrow> string" where
  "js_String rc JNull = ''null''"
| "js_String rc (JBool b) = (if b then ''true'' else ''false'')"
| "js_String rc (JNum n) = number_text rc n"
| "js_String rc (JStr s) = s"
| "js_String rc (JArr xs) = join '','' (map (\<lambda>x. if x = JNull then [] else js_String rc x) xs)"
| "js_String rc (JObj kvs) = ''[object Object]''"
| "js_String rc (JBigInt n) = show_int n"

definition js_text :: "rctx \<Rightarrow> json option \<Rightarrow> string" where
  "js_text rc v = (case v of None \<Rightarrow> ''undefined'' | Some x \<Rightarrow> js_String rc x)"

definition js_join :: "rctx \<Rightarrow> string \<Rightarrow> json list \<Rightarrow> string" where
  "js_join rc sep xs = join sep (map (\<lambda>x. if x = JNull then [] else js_String rc x) xs)"

fun js_truthy :: "json option \<Rightarrow> bool" where
  "js_truthy None = False"
| "js_truthy (Some JNull) = False"
| "js_truthy (Some (JBool b)) = b"
| "js_truthy (Some (JNum n)) = (n \<noteq> 0)"
| "js_truthy (Some (JStr s)) = (s \<noteq> [])"
| "js_truthy (Some (JArr xs)) = True"
| "js_truthy (Some (JObj kvs)) = True"
| "js_truthy (Some (JBigInt n)) = (n \<noteq> 0)"

fun property :: "string \<Rightarrow> json \<Rightarrow> json option" where
  "property k (JObj kvs) = map_of kvs k"
| "property k v = None"

fun js_number :: "rctx \<Rightarrow> json option \<Rightarrow> int option" where
  "js_number rc None = None"
| "js_number rc (Some JNull) = Some 0"
| "js_number rc (Some (JBool b)) = Some (if b then 1 else 0)"
| "js_number rc (Some (JNum n)) = Some n"
| "js_number rc (Some (JStr s)) = to_number rc s"
| "js_number rc (Some (JArr xs)) = to_number rc (js_String rc (JArr xs))"
| "js_number rc (Some (JObj kvs)) = None"
| "js_number rc (Some (JBigInt n)) = Some n"

definition js_ge :: "rctx \<Rightarrow> json option \<Rightarrow> int \<Rightarrow> bool" where
  \<comment> \<open>\<open>v >= n\<close> for a number \<open>n\<close>: false when \<open>v\<close> converts to \<open>NaN\<close>\<close>
  "js_ge rc v n = (case js_number rc v of None \<Rightarrow> False | Some m \<Rightarrow> m \<ge> n)"

subsection \<open>Model and tool calls\<close>

record call_options =
  opt_tools :: "tool_schema list option"
  noTools :: bool

definition default_options :: call_options where
  "default_options = \<lparr>opt_tools = None, noTools = False\<rparr>"

definition no_tools :: call_options where
  "no_tools = \<lparr>opt_tools = None, noTools = True\<rparr>"

definition allowed_schemas :: "rctx \<Rightarrow> tool_schema list" where
  "allowed_schemas rc =
     filter (\<lambda>t. isAllowed (schema_name t) (allowedTools (policy rc))) (getSchemas (tools rc))"

definition add_usage :: "token_usage \<Rightarrow> run_state \<Rightarrow> run_state" where
  "add_usage u st =
     st\<lparr>usage := \<lparr>promptTokens = promptTokens (usage st) + promptTokens u,
                   completionTokens = completionTokens (usage st) + completionTokens u,
                   totalTokens = totalTokens (usage st) + totalTokens u\<rparr>\<rparr>"

definition over_budget :: "rctx \<Rightarrow> run_state \<Rightarrow> bool" where
  \<comment> \<open>\<open>policy.tokenBudget && usage.totalTokens >= policy.tokenBudget\<close>\<close>
  "over_budget rc st =
     (case tokenBudget (policy rc) of None \<Rightarrow> False
      | Some b \<Rightarrow> b \<noteq> 0 \<and> totalTokens (usage st) \<ge> b)"

definition complete :: "rctx \<Rightarrow> model_request \<Rightarrow> run_state \<Rightarrow> (error + model_response) \<times> run_state" where
  \<comment> \<open>\<open>model.complete(request)\<close>\<close>
  "complete rc req st = (model rc (modelCalls st) req, st\<lparr>modelCalls := modelCalls st + 1\<rparr>)"

definition callModel ::
  "rctx \<Rightarrow> message list \<Rightarrow> call_options \<Rightarrow> run_state \<Rightarrow> (error + model_response) \<times> run_state" where
  "callModel rc msgs options st =
     (let tls = (if noTools options then []
                 else (case opt_tools options of Some ts \<Rightarrow> ts | None \<Rightarrow> allowed_schemas rc))
      in case complete rc \<lparr>req_messages = msgs, req_tools = Some tls\<rparr> st of
           (Inl e, st1) \<Rightarrow> (Inl e, st1)
         | (Inr response, st1) \<Rightarrow>
             (case resp_usage response of
                None \<Rightarrow> (Inr response, st1)
              | Some u \<Rightarrow>
                  (let st2 = add_usage u st1
                   in if over_budget rc st2
                      then (Inl (TokenBudgetExceeded ''[Reasoning] Token budget exceeded.''), st2)
                      else (Inr response, st2))))"

definition calls_of :: "model_response \<Rightarrow> tool_call list" where
  \<comment> \<open>the calls of a response; \<open>response.toolCalls?.length\<close> is truthy when there is one\<close>
  "calls_of response = (case resp_toolCalls response of None \<Rightarrow> [] | Some cs \<Rightarrow> cs)"

fun executeCalls :: "rctx \<Rightarrow> tool_call list \<Rightarrow> run_state \<Rightarrow> (error + unit) \<times> run_state" where
  "executeCalls rc [] st = (Inr (), st)"
| "executeCalls rc (tc # tcs) st =
     (case callTool rc (call_name tc) (arguments tc) (call_id tc) st of
        (Inl e, st1) \<Rightarrow> (Inl e, st1)
      | (Inr v, st1) \<Rightarrow> executeCalls rc tcs st1)"

definition executeToolCalls :: "rctx \<Rightarrow> model_response \<Rightarrow> run_state \<Rightarrow> (error + unit) \<times> run_state" where
  "executeToolCalls rc response st =
     (if calls_of response = [] then (Inr (), st) else executeCalls rc (calls_of response) st)"

section \<open>Reasoning engines (packages/reasoning/src/engines)\<close>

subsection \<open>ReactEngine\<close>

record react_config =
  react_maxSteps :: nat

text \<open>
  A loop of an engine is a recursive function over its counter; the body of the loop is
  a function of its own that says how the iteration ends: \<open>Return\<close> is a \<open>return\<close> (or a
  \<open>break\<close>) with its value, \<open>Again\<close> is the end of the body, with what the next iteration
  starts from.
\<close>

datatype ('r, 'c) flow = Return 'r | Again 'c

definition react_turn :: "rctx \<Rightarrow> run_state \<Rightarrow> (error + (string, unit) flow) \<times> run_state" where
  "react_turn rc st =
     (case callModel rc (messages st) default_options st of
        (Inl e, st1) \<Rightarrow> (Inl e, st1)
      | (Inr response, st1) \<Rightarrow>
          (let st2 = push_message (resp_message response) st1;
               st3 = (if content (resp_message response) \<noteq> [] \<and> calls_of response \<noteq> []
                      then pushStep (ThoughtStep (content (resp_message response)) ''react'') st2
                      else st2)
           in if calls_of response = []
              then (Inr (Return (content (resp_message response))),
                    pushStep (ResponseStep (content (resp_message response)) ''react'') st3)
              else (case executeToolCalls rc response st3 of
                      (Inl e, st4) \<Rightarrow> (Inl e, st4)
                    | (Inr u, st4) \<Rightarrow> (Inr (Again ()), st4))))"

function react_loop :: "rctx \<Rightarrow> react_config \<Rightarrow> nat \<Rightarrow> run_state \<Rightarrow> (error + string) \<times> run_state" where
  "react_loop rc cfg n st =
     (if n < react_maxSteps cfg then
        (case react_turn rc st of
           (Inl e, st1) \<Rightarrow> (Inl e, st1)
         | (Inr (Return text), st1) \<Rightarrow> (Inr text, st1)
         | (Inr (Again u), st1) \<Rightarrow> react_loop rc cfg (n + 1) st1)
      else (Inl (MaxStepsReached (''[ReactEngine] Max steps ('' @ number_text rc (int (react_maxSteps cfg))
               @ '') reached without a final answer.'')), st))"
  by pat_completeness auto
termination
  by (relation "measure (\<lambda>(rc, cfg, n, st). react_maxSteps cfg - n)") auto

definition react_execute :: "react_config \<Rightarrow> rctx \<Rightarrow> run_state \<Rightarrow> (error + string) \<times> run_state" where
  "react_execute cfg rc st = react_loop rc cfg 0 st"

subsection \<open>ChainOfThoughtEngine\<close>

record cot_config =
  useThinkingTags :: bool
  maxToolSteps :: nat
  thinkingInstruction :: string

definition findIndex :: "('a \<Rightarrow> bool) \<Rightarrow> 'a list \<Rightarrow> nat option" where
  "findIndex P xs = (if \<exists>x \<in> set xs. P x then Some (length (takeWhile (\<lambda>x. \<not> P x) xs)) else None)"

definition injectInstruction :: "cot_config \<Rightarrow> message list \<Rightarrow> message list" where
  "injectInstruction cfg msgs =
     (if \<not> useThinkingTags cfg then msgs
      else (case findIndex (\<lambda>m. role m = System) msgs of
              Some systemIdx \<Rightarrow>
                msgs[systemIdx := (msgs ! systemIdx)\<lparr>content :=
                   content (msgs ! systemIdx) @ newline @ newline @ thinkingInstruction cfg\<rparr>]
            | None \<Rightarrow> mk_message System (thinkingInstruction cfg) # msgs))"

fun extractThinking :: "string \<Rightarrow> string option" where
  \<comment> \<open>the trimmed group of the first match of \<open>/<thinking>([\s\S]*?)<\/thinking>/i\<close>\<close>
  "extractThinking [] = None"
| "extractThinking (c # cs) =
     (if starts_with_ci ''<thinking>'' (c # cs)
      then (case find_ci ''</thinking>'' (drop 10 (c # cs)) of
              None \<Rightarrow> extractThinking cs
            | Some k \<Rightarrow> Some (trim (take k (drop 10 (c # cs)))))
      else extractThinking cs)"

definition cot_turn :: "rctx \<Rightarrow> run_state \<Rightarrow> (error + (string, unit) flow) \<times> run_state" where
  "cot_turn rc st =
     (case callModel rc (messages st) default_options st of
        (Inl e, st1) \<Rightarrow> (Inl e, st1)
      | (Inr nxt, st1) \<Rightarrow>
          (let st2 = push_message (resp_message nxt) st1
           in if calls_of nxt = []
              then (let answer = extractText (content (resp_message nxt))
                    in (Inr (Return answer), pushStep (ResponseStep answer ''cot'') st2))
              else (case executeToolCalls rc nxt st2 of
                      (Inl e, st3) \<Rightarrow> (Inl e, st3)
                    | (Inr u, st3) \<Rightarrow> (Inr (Again ()), st3))))"

function cot_loop :: "rctx \<Rightarrow> cot_config \<Rightarrow> nat \<Rightarrow> run_state \<Rightarrow> (error + string) \<times> run_state" where
  "cot_loop rc cfg toolSteps st =
     (if toolSteps < maxToolSteps cfg then
        (case cot_turn rc st of
           (Inl e, st1) \<Rightarrow> (Inl e, st1)
         | (Inr (Return answer), st1) \<Rightarrow> (Inr answer, st1)
         | (Inr (Again u), st1) \<Rightarrow> cot_loop rc cfg (toolSteps + 1) st1)
      else (Inl (MaxStepsReached (''[ChainOfThoughtEngine] Max tool steps ('' @ number_text rc (int (maxToolSteps cfg))
               @ '') reached.'')), st))"
  by pat_completeness auto
termination
  by (relation "measure (\<lambda>(rc, cfg, n, st). maxToolSteps cfg - n)") auto

definition cot_execute :: "cot_config \<Rightarrow> rctx \<Rightarrow> run_state \<Rightarrow> (error + string) \<times> run_state" where
  "cot_execute cfg rc st =
     (let msgs = injectInstruction cfg (messages st)
      in case callModel rc msgs default_options st of
           (Inl e, st1) \<Rightarrow> (Inl e, st1)
         | (Inr response, st1) \<Rightarrow>
             (let st2 = push_message (resp_message response) st1;
                  st3 = (if useThinkingTags cfg
                         then (case extractThinking (content (resp_message response)) of
                                 None \<Rightarrow> st2
                               | Some thinking \<Rightarrow>
                                   if thinking \<noteq> [] then pushStep (ThoughtStep thinking ''cot'') st2
                                   else st2)
                         else st2)
              in if calls_of response = []
                 then (let answer = extractText (content (resp_message response))
                       in (Inr answer, pushStep (ResponseStep answer ''cot'') st3))
                 else (case executeToolCalls rc response st3 of
                         (Inl e, st4) \<Rightarrow> (Inl e, st4)
                       | (Inr u, st4) \<Rightarrow> cot_loop rc cfg 1 st4)))"

subsection \<open>PlannerEngine\<close>

record planner_config =
  maxExecutionSteps :: nat
  allowReplan :: bool
  plannerPrompt :: string
  executorPrompt :: string

definition makePlan :: "planner_config \<Rightarrow> rctx \<Rightarrow> run_state \<Rightarrow> (error + plan_task list) \<times> run_state" where
  "makePlan cfg rc st =
     (let planMessages = [mk_message System (plannerPrompt cfg), mk_message User (input rc)]
      in case callModel rc planMessages no_tools st of
           (Inl e, st1) \<Rightarrow> (Inl e, st1)
         | (Inr response, st1) \<Rightarrow>
             (case parse_tasks rc (parseJSON_text (content (resp_message response))) of
                Some rawTasks \<Rightarrow>
                  (Inr (map (\<lambda>(i, t).
                          \<lparr>task_id = (case raw_id t of Some tid \<Rightarrow> tid | None \<Rightarrow> randomUUID rc i),
                           description = raw_description t,
                           dependsOn = Some (case raw_dependsOn t of Some ds \<Rightarrow> ds | None \<Rightarrow> []),
                           status = Pending, task_result = None\<rparr>)
                        (enumerate 0 rawTasks)), st1)
              | None \<Rightarrow>
                  (Inr [\<lparr>task_id = ''t1'', description = input rc, dependsOn = Some [],
                          status = Pending, task_result = None\<rparr>], st1)))"

definition deps_of :: "plan_task \<Rightarrow> string list" where
  \<comment> \<open>\<open>task.dependsOn ?? []\<close>\<close>
  "deps_of task = (case dependsOn task of None \<Rightarrow> [] | Some ds \<Rightarrow> ds)"

text \<open>The inner \<open>for\<close> of \<open>_executeTask\<close>: each result is also appended to the task's own
  message list.\<close>

fun task_calls ::
  "rctx \<Rightarrow> tool_call list \<Rightarrow> message list \<Rightarrow> run_state \<Rightarrow> (error + message list) \<times> run_state" where
  "task_calls rc [] taskMessages st = (Inr taskMessages, st)"
| "task_calls rc (tc # tcs) taskMessages st =
     (case callTool rc (call_name tc) (arguments tc) (call_id tc) st of
        (Inl e, st1) \<Rightarrow> (Inl e, st1)
      | (Inr result, st1) \<Rightarrow>
          (case stringify rc result of
             None \<Rightarrow> (Inl (TypeError ''JSON.stringify''), st1)
           | Some text \<Rightarrow> task_calls rc tcs (taskMessages @ [tool_message text (call_id tc)]) st1))"

definition task_turn ::
  "rctx \<Rightarrow> message list \<Rightarrow> run_state \<Rightarrow> (error + (string, message list) flow) \<times> run_state" where
  "task_turn rc taskMessages st =
     (case callModel rc taskMessages default_options st of
        (Inl e, st1) \<Rightarrow> (Inl e, st1)
      | (Inr response, st1) \<Rightarrow>
          (let taskMessages1 = taskMessages @ [resp_message response]
           in if calls_of response = []
              then (Inr (Return (extractText (content (resp_message response)))), st1)
              else (case task_calls rc (calls_of response) taskMessages1 st1 of
                      (Inl e, st2) \<Rightarrow> (Inl e, st2)
                    | (Inr taskMessages2, st2) \<Rightarrow> (Inr (Again taskMessages2), st2))))"

function task_loop ::
  "rctx \<Rightarrow> plan_task \<Rightarrow> message list \<Rightarrow> nat \<Rightarrow> run_state \<Rightarrow> (error + string) \<times> run_state" where
  "task_loop rc task taskMessages n st =
     (if n < 5 then
        (case task_turn rc taskMessages st of
           (Inl e, st1) \<Rightarrow> (Inl e, st1)
         | (Inr (Return text), st1) \<Rightarrow> (Inr text, st1)
         | (Inr (Again taskMessages2), st1) \<Rightarrow> task_loop rc task taskMessages2 (n + 1) st1)
      else (Inl (PlannerTaskExceeded (task_id task)), st))"
  by pat_completeness auto
termination
  by (relation "measure (\<lambda>(rc, task, msgs, n, st). 5 - n)") auto

definition executeTask ::
  "planner_config \<Rightarrow> rctx \<Rightarrow> plan_task \<Rightarrow> (string \<rightharpoonup> string) \<Rightarrow> run_state
     \<Rightarrow> (error + string) \<times> run_state" where
  "executeTask cfg rc task previousResults st =
     (let depContext =
            (if deps_of task \<noteq> []
             then newline @ newline @ ''Context from previous tasks:'' @ newline
                  @ join newline (map (\<lambda>d. ''['' @ d @ '']: ''
                       @ (case previousResults d of Some r \<Rightarrow> r | None \<Rightarrow> ''N/A'')) (deps_of task))
             else []);
          taskMessages =
            [mk_message System (executorPrompt cfg),
             mk_message User (''Original goal: '' @ input rc @ newline @ newline
                @ ''Current task: '' @ description task @ depContext)]
      in task_loop rc task taskMessages 0 st)"

text \<open>
  The plan step that \<open>execute\<close> pushes holds the array \<open>plan\<close> itself, and the loop
  assigns to the \<open>status\<close> and the \<open>result\<close> of the tasks of that array: the step changes
  with them. \<open>planIndex\<close> is the index of the plan step in \<open>ctx.state.steps\<close>, and
  \<open>set_plan\<close> is what an assignment to a task does to the state.
\<close>

definition set_plan :: "nat \<Rightarrow> plan_task list \<Rightarrow> run_state \<Rightarrow> run_state" where
  "set_plan planIndex plan st = st\<lparr>steps := (steps st)[planIndex := PlanStep plan ''planner'']\<rparr>"

text \<open>
  The \<open>for (const task of plan)\<close> of \<open>execute\<close>: \<open>visited\<close> are the tasks already passed, as
  the loop left them, \<open>task\<close> is the current one and \<open>rest\<close> are those to come, so the
  array is \<open>visited @ task # rest\<close>; a task with an unmet dependency is passed as it is.
\<close>

definition plan_task_step ::
  "planner_config \<Rightarrow> rctx \<Rightarrow> nat \<Rightarrow> plan_task list \<Rightarrow> plan_task \<Rightarrow> plan_task list
     \<Rightarrow> (string \<rightharpoonup> string) \<Rightarrow> nat \<Rightarrow> run_state
     \<Rightarrow> (error + plan_task \<times> (string \<rightharpoonup> string) \<times> nat) \<times> run_state" where
  \<comment> \<open>the body of the loop for a task whose dependencies are met\<close>
  "plan_task_step cfg rc planIndex visited task rest taskResults executionSteps st =
     (let task1 = task\<lparr>status := InProgress\<rparr>;
          st1 = set_plan planIndex (visited @ task1 # rest) st;
          st2 = pushStep (ThoughtStep (''Executing task ['' @ task_id task1 @ '']: ''
                   @ description task1) ''planner'') st1
      in case executeTask cfg rc task1 taskResults st2 of
           (Inr result, st3) \<Rightarrow>
             (let task2 = task1\<lparr>status := Done, task_result := Some result\<rparr>
              in (Inr (task2, taskResults(task_id task2 \<mapsto> result), executionSteps + 1),
                  set_plan planIndex (visited @ task2 # rest) st3))
         | (Inl e, st3) \<Rightarrow>
             (let task2 = task1\<lparr>status := Failed\<rparr>;
                  st4 = set_plan planIndex (visited @ task2 # rest) st3
              in if \<not> allowReplan cfg then (Inl (PlannerTaskFailed (task_id task2) e), st4)
                 else (Inr (task2, taskResults, executionSteps), st4)))"

fun plan_loop ::
  "planner_config \<Rightarrow> rctx \<Rightarrow> nat \<Rightarrow> plan_task list \<Rightarrow> plan_task list \<Rightarrow> (string \<rightharpoonup> string) \<Rightarrow> nat
     \<Rightarrow> run_state \<Rightarrow> (error + plan_task list \<times> (string \<rightharpoonup> string)) \<times> run_state" where
  "plan_loop cfg rc planIndex [] visited taskResults executionSteps st = (Inr (visited, taskResults), st)"
| "plan_loop cfg rc planIndex (task # rest) visited taskResults executionSteps st =
     (if executionSteps \<ge> maxExecutionSteps cfg then (Inl PlannerMaxExecutionSteps, st)
      else if filter (\<lambda>dep. taskResults dep = None) (deps_of task) \<noteq> []
      then plan_loop cfg rc planIndex rest (visited @ [task]) taskResults executionSteps st
      else (case plan_task_step cfg rc planIndex visited task rest taskResults executionSteps st of
              (Inl e, st1) \<Rightarrow> (Inl e, st1)
            | (Inr (task1, taskResults1, executionSteps1), st1) \<Rightarrow>
                plan_loop cfg rc planIndex rest (visited @ [task1]) taskResults1 executionSteps1 st1))"

definition synthesize ::
  "rctx \<Rightarrow> plan_task list \<Rightarrow> (string \<rightharpoonup> string) \<Rightarrow> run_state \<Rightarrow> (error + string) \<times> run_state" where
  "synthesize rc plan results st =
     (let summaryContext = join (newline @ newline)
            (map (\<lambda>t. ''['' @ task_id t @ ''] '' @ description t @ '':'' @ newline
                    @ (case results (task_id t) of Some r \<Rightarrow> r | None \<Rightarrow> ''no result''))
               (filter (\<lambda>t. status t = Done) plan));
          synthMessages =
            [mk_message System
               ''Synthesize the results of the completed tasks into a clear, direct answer to the original user request.'',
             mk_message User (''Original request: '' @ input rc @ newline @ newline
                @ ''Task results:'' @ newline @ summaryContext)]
      in case callModel rc synthMessages no_tools st of
           (Inl e, st1) \<Rightarrow> (Inl e, st1)
         | (Inr response, st1) \<Rightarrow> (Inr (content (resp_message response)), st1))"

definition planner_execute :: "planner_config \<Rightarrow> rctx \<Rightarrow> run_state \<Rightarrow> (error + string) \<times> run_state" where
  "planner_execute cfg rc st =
     (case makePlan cfg rc st of
        (Inl e, st1) \<Rightarrow> (Inl e, st1)
      | (Inr plan, st1) \<Rightarrow>
          (let planIndex = length (steps st1);
               st2 = pushStep (PlanStep plan ''planner'') st1
           in case plan_loop cfg rc planIndex plan [] Map.empty 0 st2 of
                (Inl e, st3) \<Rightarrow> (Inl e, st3)
              | (Inr (visited, taskResults), st3) \<Rightarrow>
                  (case synthesize rc visited taskResults st3 of
                     (Inl e, st4) \<Rightarrow> (Inl e, st4)
                   | (Inr summaryText, st4) \<Rightarrow>
                       (Inr summaryText, pushStep (ResponseStep summaryText ''planner'') st4))))"

subsection \<open>ReflectEngine\<close>

record reflect_config =
  maxReflections :: nat
  acceptanceThreshold :: int
  maxAnswerSteps :: nat
  critiquePrompt :: string

text \<open>\<open>_generateAnswer\<close> is called with \<open>ctx.state.messages\<close> itself, so the list it reads
  and pushes to is the one of the state.\<close>

definition generate_turn :: "rctx \<Rightarrow> run_state \<Rightarrow> (error + (string, unit) flow) \<times> run_state" where
  "generate_turn rc st =
     (case callModel rc (messages st) default_options st of
        (Inl e, st1) \<Rightarrow> (Inl e, st1)
      | (Inr response, st1) \<Rightarrow>
          (let st2 = push_message (resp_message response) st1
           in if calls_of response = []
              then (Inr (Return (extractText (content (resp_message response)))), st2)
              else (case executeToolCalls rc response st2 of
                      (Inl e, st3) \<Rightarrow> (Inl e, st3)
                    | (Inr u, st3) \<Rightarrow> (Inr (Again ()), st3))))"

function generate_loop :: "reflect_config \<Rightarrow> rctx \<Rightarrow> nat \<Rightarrow> run_state \<Rightarrow> (error + string) \<times> run_state" where
  "generate_loop cfg rc n st =
     (if n < maxAnswerSteps cfg then
        (case generate_turn rc st of
           (Inl e, st1) \<Rightarrow> (Inl e, st1)
         | (Inr (Return text), st1) \<Rightarrow> (Inr text, st1)
         | (Inr (Again u), st1) \<Rightarrow> generate_loop cfg rc (n + 1) st1)
      else (Inl (MaxStepsReached (''[ReflectEngine] Max answer steps ('' @ number_text rc (int (maxAnswerSteps cfg))
               @ '') reached.'')), st))"
  by pat_completeness auto
termination
  by (relation "measure (\<lambda>(cfg, rc, n, st). maxAnswerSteps cfg - n)") auto

definition generateAnswer :: "reflect_config \<Rightarrow> rctx \<Rightarrow> run_state \<Rightarrow> (error + string) \<times> run_state" where
  "generateAnswer cfg rc st = generate_loop cfg rc 0 st"

text \<open>
  \<open>_critique\<close> returns what \<open>JSON.parse\<close> makes of the model's text, whatever its shape,
  and the object of its \<open>catch\<close> when \<open>JSON.parse\<close> throws.
\<close>

definition accept_critique :: json where
  \<comment> \<open>the value of the \<open>catch\<close> of \<open>_critique\<close>\<close>
  "accept_critique = JObj [(''score'', JNum 9), (''issues'', JArr []), (''suggestion'', JStr []),
                           (''needs_revision'', JBool False)]"

definition evaluate_critique :: "rctx \<Rightarrow> string \<Rightarrow> json" where
  \<comment> \<open>what \<open>_critique\<close> makes of the model's text\<close>
  "evaluate_critique rc text =
     (case parse_json rc (critique_text text) of Some v \<Rightarrow> v | None \<Rightarrow> accept_critique)"

definition reflect_critique ::
  "reflect_config \<Rightarrow> rctx \<Rightarrow> string \<Rightarrow> string \<Rightarrow> run_state \<Rightarrow> (error + json) \<times> run_state" where
  "reflect_critique cfg rc question answer st =
     (let critiqueMessages =
            [mk_message System (critiquePrompt cfg),
             mk_message User (''Question:'' @ newline @ question @ newline @ newline
                @ ''Answer to evaluate:'' @ newline @ answer)]
      in case callModel rc critiqueMessages no_tools st of
           (Inl e, st1) \<Rightarrow> (Inl e, st1)
         | (Inr response, st1) \<Rightarrow> (Inr (evaluate_critique rc (content (resp_message response))), st1))"

text \<open>
  The reads that \<open>execute\<close> makes of the critique, outside any \<open>try\<close>. The first ones
  stand in the template of the assessment, which is evaluated before the reflection
  step is pushed: \<open>critique.score\<close> throws a \<open>TypeError\<close> when the critique is \<open>null\<close>, and
  \<open>critique.issues.join\<close> throws one unless \<open>issues\<close> is an array. \<open>read_critique\<close> is the
  outcome of these reads; the later reads of the same properties find the same values.
\<close>

record critique =
  score :: "json option"
  issues :: "json list"
  suggestion :: "json option"
  needs_revision :: "json option"

definition read_critique :: "json \<Rightarrow> error + critique" where
  "read_critique v =
     (if v = JNull then Inl (TypeError ''critique.score'')
      else (case property ''issues'' v of
              Some (JArr xs) \<Rightarrow>
                Inr \<lparr>score = property ''score'' v, issues = xs,
                     suggestion = property ''suggestion'' v,
                     needs_revision = property ''needs_revision'' v\<rparr>
            | _ \<Rightarrow> Inl (TypeError ''critique.issues.join'')))"

definition assessment_of :: "rctx \<Rightarrow> critique \<Rightarrow> string" where
  "assessment_of rc c =
     ''Score: '' @ js_text rc (score c) @ ''/10. Issues: '' @ js_join rc ''; '' (issues c) @ ''. ''
       @ js_text rc (suggestion c)"

definition revise ::
  "rctx \<Rightarrow> string \<Rightarrow> string \<Rightarrow> critique \<Rightarrow> run_state \<Rightarrow> (error + string) \<times> run_state" where
  "revise rc question currentAnswer c st =
     (let revisionMessages =
            [mk_message System
               ''You are revising your previous answer based on critique. Produce an improved, complete answer.'',
             mk_message User (''Original question:'' @ newline @ question),
             mk_message Assistant currentAnswer,
             mk_message User (''Critique of your answer:'' @ newline
               @ ''- Score: '' @ js_text rc (score c) @ ''/10'' @ newline
               @ ''- Issues: '' @ js_join rc '', '' (issues c) @ newline
               @ ''- Suggestion: '' @ js_text rc (suggestion c) @ newline @ newline
               @ ''Please revise your answer to address these issues.'')]
      in case callModel rc revisionMessages default_options st of
           (Inl e, st1) \<Rightarrow> (Inl e, st1)
         | (Inr response, st1) \<Rightarrow>
             if calls_of response \<noteq> []
             then (let st2 = push_message (resp_message response) st1
                   in case executeToolCalls rc response st2 of
                        (Inl e, st3) \<Rightarrow> (Inl e, st3)
                      | (Inr u, st3) \<Rightarrow>
                          (case callModel rc (messages st3) no_tools st3 of
                             (Inl e, st4) \<Rightarrow> (Inl e, st4)
                           | (Inr final, st4) \<Rightarrow>
                               (Inr (extractText (content (resp_message final))), st4)))
             else (Inr (extractText (content (resp_message response))), st1))"

definition reflect_turn ::
  "reflect_config \<Rightarrow> rctx \<Rightarrow> nat \<Rightarrow> string \<Rightarrow> run_state \<Rightarrow> (error + (string, string) flow) \<times> run_state" where
  \<comment> \<open>the body of the reflection loop: \<open>Return\<close> is the \<open>break\<close>, \<open>Again\<close> carries the revision\<close>
  "reflect_turn cfg rc i answer st =
     (case reflect_critique cfg rc (input rc) answer st of
        (Inl e, st1) \<Rightarrow> (Inl e, st1)
      | (Inr v, st1) \<Rightarrow>
          (case read_critique v of
             Inl e \<Rightarrow> (Inl e, st1)
           | Inr c \<Rightarrow>
               (let st2 = pushStep (ReflectionStep (assessment_of rc c) (needs_revision c) ''reflect'') st1
                in if \<not> js_truthy (needs_revision c) \<or> js_ge rc (score c) (acceptanceThreshold cfg)
                   then (Inr (Return answer), st2)
                   else
                     (let st3 = pushStep (ThoughtStep (''Revising answer (attempt ''
                                   @ number_text rc (int (i + 1)) @ ''/'' @ number_text rc (int (maxReflections cfg))
                                   @ '')...'')
                                   ''reflect'') st2
                      in case revise rc (input rc) answer c st3 of
                           (Inl e, st4) \<Rightarrow> (Inl e, st4)
                         | (Inr revised, st4) \<Rightarrow> (Inr (Again revised), st4)))))"

function reflect_loop ::
  "reflect_config \<Rightarrow> rctx \<Rightarrow> nat \<Rightarrow> string \<Rightarrow> run_state \<Rightarrow> (error + string) \<times> run_state" where
  "reflect_loop cfg rc i answer st =
     (if i < maxReflections cfg then
        (case reflect_turn cfg rc i answer st of
           (Inl e, st1) \<Rightarrow> (Inl e, st1)
         | (Inr (Return final), st1) \<Rightarrow> (Inr final, st1)
         | (Inr (Again revised), st1) \<Rightarrow> reflect_loop cfg rc (i + 1) revised st1)
      else (Inr answer, st))"
  by pat_completeness auto
termination
  by (relation "measure (\<lambda>(cfg, rc, i, answer, st). maxReflections cfg - i)") auto

definition reflect_execute :: "reflect_config \<Rightarrow> rctx \<Rightarrow> run_state \<Rightarrow> (error + string) \<times> run_state" where
  "reflect_execute cfg rc st =
     (case generateAnswer cfg rc st of
        (Inl e, st1) \<Rightarrow> (Inl e, st1)
      | (Inr answer, st1) \<Rightarrow>
          (let st2 = pushStep (ThoughtStep ''Initial answer generated.'' ''reflect'') st1
           in case reflect_loop cfg rc 0 answer st2 of
                (Inl e, st3) \<Rightarrow> (Inl e, st3)
              | (Inr final, st3) \<Rightarrow> (Inr final, pushStep (ResponseStep final ''reflect'') st3)))"

subsection \<open>AutonomousEngine\<close>

record autonomous_config =
  autonomous_maxSteps :: nat
  finishToolName :: string
  finishToolDescription :: string

definition finishSchema :: "autonomous_config \<Rightarrow> tool_schema" where
  "finishSchema cfg =
     \<lparr>schema_name = finishToolName cfg,
      schema_description = finishToolDescription cfg,
      schema_parameters = JObj
        [(''type'', JStr ''object''),
         (''properties'', JObj [(''result'', JObj [(''type'', JStr ''string''),
             (''description'', JStr ''Your final answer or output.'')])]),
         (''required'', JArr [JStr ''result''])]\<rparr>"

definition finish_result :: "rctx \<Rightarrow> tool_call \<Rightarrow> string \<Rightarrow> string" where
  \<comment> \<open>\<open>String(finishCall.arguments.result ?? response.message.content)\<close>\<close>
  "finish_result rc finishCall text =
     (case map_of (arguments finishCall) ''result'' of
        None \<Rightarrow> text
      | Some v \<Rightarrow> if v = JNull then text else js_String rc v)"

definition autonomous_turn ::
  "autonomous_config \<Rightarrow> rctx \<Rightarrow> tool_schema list \<Rightarrow> run_state
     \<Rightarrow> (error + (string, unit) flow) \<times> run_state" where
  "autonomous_turn cfg rc allSchemas st =
     (case complete rc \<lparr>req_messages = messages st, req_tools = Some allSchemas\<rparr> st of
        (Inl e, st1) \<Rightarrow> (Inl e, st1)
      | (Inr response, st1) \<Rightarrow>
          (let st2 = (case resp_usage response of None \<Rightarrow> st1 | Some u \<Rightarrow> add_usage u st1)
           in if resp_usage response \<noteq> None \<and> over_budget rc st2
              then (Inl (TokenBudgetExceeded ''[AutonomousEngine] Token budget exceeded.''), st2)
              else
                (let st3 = push_message (resp_message response) st2;
                     st4 = (if content (resp_message response) \<noteq> []
                            then pushStep (ThoughtStep (content (resp_message response)) ''autonomous'') st3
                            else st3)
                 in if calls_of response \<noteq> []
                    then (case find (\<lambda>tc. call_name tc = finishToolName cfg) (calls_of response) of
                            Some finishCall \<Rightarrow>
                              (let result = finish_result rc finishCall (content (resp_message response))
                               in case stringify rc (JObj [(''done'', JBool True)]) of
                                    None \<Rightarrow> (Inl (TypeError ''JSON.stringify''), st4)
                                  | Some text \<Rightarrow>
                                      (let st5 = push_message (tool_message text (call_id finishCall)) st4
                                       in (Inr (Return result),
                                           pushStep (ResponseStep result ''autonomous'') st5)))
                          | None \<Rightarrow>
                              (let regularCalls =
                                     filter (\<lambda>tc. call_name tc \<noteq> finishToolName cfg) (calls_of response)
                               in case executeCalls rc regularCalls st4 of
                                    (Inl e, st5) \<Rightarrow> (Inl e, st5)
                                  | (Inr u, st5) \<Rightarrow> (Inr (Again ()), st5)))
                    else (let answer = extractText (content (resp_message response))
                          in (Inr (Return answer), pushStep (ResponseStep answer ''autonomous'') st4)))))"

function autonomous_loop ::
  "autonomous_config \<Rightarrow> rctx \<Rightarrow> tool_schema list \<Rightarrow> nat \<Rightarrow> run_state \<Rightarrow> (error + string) \<times> run_state" where
  "autonomous_loop cfg rc allSchemas n st =
     (if n < autonomous_maxSteps cfg then
        (case autonomous_turn cfg rc allSchemas st of
           (Inl e, st1) \<Rightarrow> (Inl e, st1)
         | (Inr (Return text), st1) \<Rightarrow> (Inr text, st1)
         | (Inr (Again u), st1) \<Rightarrow> autonomous_loop cfg rc allSchemas (n + 1) st1)
      else (Inl (MaxStepsReached (''[AutonomousEngine] Max steps ('' @ number_text rc (int (autonomous_maxSteps cfg))
               @ '') reached. The agent did not call '' @ [CHR 0x22] @ finishToolName cfg
               @ [CHR 0x22] @ ''.'')), st))"
  by pat_completeness auto
termination
  by (relation "measure (\<lambda>(cfg, rc, schemas, n, st). autonomous_maxSteps cfg - n)") auto

definition autonomous_execute ::
  "autonomous_config \<Rightarrow> rctx \<Rightarrow> run_state \<Rightarrow> (error + string) \<times> run_state" where
  "autonomous_execute cfg rc st =
     (let baseSchemas = allowed_schemas rc;
          allSchemas = baseSchemas @ [finishSchema cfg]
      in autonomous_loop cfg rc allSchemas 0 st)"

subsection \<open>The built-in engines\<close>

datatype engine =
    React react_config
  | ChainOfThought cot_config
  | Planner planner_config
  | Reflect reflect_config
  | Autonomous autonomous_config

fun engine_name :: "engine \<Rightarrow> string" where
  "engine_name (React cfg) = ''react''"
| "engine_name (ChainOfThought cfg) = ''cot''"
| "engine_name (Planner cfg) = ''planner''"
| "engine_name (Reflect cfg) = ''reflect''"
| "engine_name (Autonomous cfg) = ''autonomous''"

fun engine_execute :: "engine \<Rightarrow> rctx \<Rightarrow> run_state \<Rightarrow> (error + string) \<times> run_state" where
  "engine_execute (React cfg) rc st = react_execute cfg rc st"
| "engine_execute (ChainOfThought cfg) rc st = cot_execute cfg rc st"
| "engine_execute (Planner cfg) rc st = planner_execute cfg rc st"
| "engine_execute (Reflect cfg) rc st = reflect_execute cfg rc st"
| "engine_execute (Autonomous cfg) rc st = autonomous_execute cfg rc st"

section \<open>Notions used in the statements\<close>

text \<open>
  \<open>extends P st st'\<close>: the steps of \<open>st'\<close> are those of \<open>st\<close> followed by steps that all
  satisfy \<open>P\<close>. \<open>answered nm text st st'\<close>: they are followed by steps that are neither
  \<open>tool_call\<close> nor \<open>response\<close> steps and then by the \<open>response\<close> step of engine \<open>nm\<close> for
  \<open>text\<close>.
\<close>

definition extends :: "(step \<Rightarrow> bool) \<Rightarrow> run_state \<Rightarrow> run_state \<Rightarrow> bool" where
  "extends P st st' = (\<exists>new. steps st' = steps st @ new \<and> list_all P new)"

definition is_result :: "step \<Rightarrow> bool" where
  "is_result s = (type_of s = Tool_result)"

definition calm :: "step \<Rightarrow> bool" where
  "calm s = (type_of s \<noteq> Tool_call \<and> type_of s \<noteq> Response)"

definition answered :: "string \<Rightarrow> string \<Rightarrow> run_state \<Rightarrow> run_state \<Rightarrow> bool" where
  "answered nm text st st' =
     (\<exists>pre. steps st' = steps st @ pre @ [ResponseStep text nm] \<and> list_all calm pre)"

fun run_ok :: "string \<Rightarrow> run_state \<Rightarrow> (error + string) \<times> run_state \<Rightarrow> bool" where
  "run_ok nm st (Inl e, st') = extends (\<lambda>s. type_of s \<noteq> Tool_call) st st'"
| "run_ok nm st (Inr text, st') = answered nm text st st'"

fun turn_ok :: "string \<Rightarrow> run_state \<Rightarrow> (error + (string, 'c) flow) \<times> run_state \<Rightarrow> bool" where
  "turn_ok nm st (Inl e, st') = extends calm st st'"
| "turn_ok nm st (Inr (Return text), st') = answered nm text st st'"
| "turn_ok nm st (Inr (Again c), st') = extends calm st st'"

definition started :: "run_state \<Rightarrow> run_state \<Rightarrow> nat list" where
  \<comment> \<open>the middleware bodies started between two states of a run, by index, in order\<close>
  "started st st' = entered_indices (drop (length (events st)) (events st'))"


text \<open>
  \<open>cleared sid p\<close>: the call \<open>p.clear?.(sid)\<close> fulfils, and \<open>p.read({sessionId: sid})\<close> then
  returns the empty list. \<open>clears sid p\<close>: this holds of every provider from outside the
  package that \<open>p\<close> is or wraps, at any depth.
\<close>

definition cleared :: "string option \<Rightarrow> 's memory_provider \<Rightarrow> bool" where
  "cleared sid p =
     (fst (memory_clear p sid) = []
      \<and> memory_read (snd (memory_clear p sid)) \<lparr>read_sessionId = sid\<rparr> = Inr [])"

fun clears :: "string option \<Rightarrow> 's memory_provider \<Rightarrow> bool" where
  "clears sid (External e) = cleared sid (External e)"
| "clears sid (Composite providers strategy) = list_all (clears sid) providers"
| "clears sid p = True"

definition summary_message :: "string \<Rightarrow> message list" where
  \<comment> \<open>what \<open>read\<close> puts in front of the active window for a stored summary\<close>
  "summary_message s =
     (if s = [] then [] else [mk_message System (''[Conversation summary so far]'' @ newline @ s)])"






section \<open>Example inputs\<close>

definition logger_mw :: middleware where
  "logger_mw = \<lparr>mw_name = Some ''logger'', mw_scope = None,
                 mw_run = [Effect ''before'', CallNext, Effect ''after'']\<rparr>"

definition guard_mw :: middleware where
  "guard_mw = \<lparr>mw_name = Some ''guard'', mw_scope = Some (One ToolBefore),
                mw_run = [Effect ''blocked'']\<rparr>"

definition audit_mw :: middleware where
  "audit_mw = \<lparr>mw_name = Some ''audit'', mw_scope = Some (Many [ToolAfter, RunAfter]),
                mw_run = [CallNext]\<rparr>"

definition tail_mw :: middleware where
  "tail_mw = \<lparr>mw_name = None, mw_scope = None, mw_run = [CallNext]\<rparr>"

definition example_pipeline :: "middleware list" where
  "example_pipeline = [logger_mw, audit_mw, guard_mw, tail_mw]"

definition twice_mw :: middleware where
  "twice_mw = \<lparr>mw_name = Some ''twice'', mw_scope = None, mw_run = [CallNext, CallNext]\<rparr>"

definition example_stringify :: "json \<Rightarrow> string option" where
  "example_stringify j =
     (case j of JStr s \<Rightarrow> Some s | JNull \<Rightarrow> Some ''null'' | JBigInt n \<Rightarrow> None
      | _ \<Rightarrow> Some ''{...}'')"

definition dq :: string where
  "dq = [CHR 0x22]"

definition accepting_text :: string where
  \<comment> \<open>a critique as the prompt asks for it, with \<open>needs_revision\<close> false\<close>
  "accepting_text = ''{'' @ dq @ ''score'' @ dq @ '':9,'' @ dq @ ''issues'' @ dq @ '':[],''
     @ dq @ ''suggestion'' @ dq @ '':'' @ dq @ dq @ '','' @ dq @ ''needs_revision'' @ dq @ '':false}''"

definition bare_text :: string where
  \<comment> \<open>a critique that has \<open>needs_revision\<close> and nothing else\<close>
  "bare_text = ''{'' @ dq @ ''needs_revision'' @ dq @ '':false}''"

definition example_parse :: "string \<Rightarrow> json option" where
  \<comment> \<open>\<open>JSON.parse\<close> on the texts of the examples; it throws on the others\<close>
  "example_parse text =
     (if text = accepting_text
      then Some (JObj [(''score'', JNum 9), (''issues'', JArr []), (''suggestion'', JStr []),
                       (''needs_revision'', JBool False)])
      else if text = bare_text then Some (JObj [(''needs_revision'', JBool False)])
      else None)"


definition boom_tool :: tool_definition where
  "boom_tool = \<lparr>schema = \<lparr>schema_name = ''boom'', schema_description = ''always fails'',
                            schema_parameters = JObj []\<rparr>,
                 execute = (\<lambda>args. Inl ''bad'')\<rparr>"

definition echo_tool :: tool_definition where
  "echo_tool = \<lparr>schema = \<lparr>schema_name = ''echo'', schema_description = ''returns its arguments'',
                            schema_parameters = JObj []\<rparr>,
                 execute = (\<lambda>args. Inr (JObj args))\<rparr>"

definition offline_model :: model_provider where
  "offline_model n req = Inl (ModelFailure ''offline'')"

definition example_rctx :: "model_provider \<Rightarrow> middleware list \<Rightarrow> rctx" where
  "example_rctx m mws =
     \<lparr>input = ''hi'', model = m, tools = register echo_tool (register boom_tool []),
      policy = \<lparr>allowedTools = Some [''echo'', ''boom''], tokenBudget = None\<rparr>,
      systemPrompt = None, middlewares = mws, stringify = example_stringify,
      parse_tasks = (\<lambda>text. None), parse_json = example_parse,
      to_number = (\<lambda>text. if text = [] then Some 0 else None), number_text = show_int,
      randomUUID = (\<lambda>n. ''uuid'')\<rparr>"


definition failing_mw :: "scope \<Rightarrow> middleware" where
  "failing_mw sc = \<lparr>mw_name = Some ''failing'', mw_scope = Some (One sc), mw_run = [Throw ''stop'']\<rparr>"

definition summary_model :: "string \<Rightarrow> model_provider" where
  "summary_model text n req =
     Inr \<lparr>resp_message = mk_message Assistant text, resp_toolCalls = None, resp_usage = None\<rparr>"

definition example_summarizing :: "string \<Rightarrow> summarizing_memory" where
  "example_summarizing text =
     \<lparr>sm_model = summary_model text, sm_modelCalls = 0, activeWindowTokens = 10,
      summaryMaxTokens = 1, summaryPrompt = ''Summarize.'', sm_sessions = Map.empty\<rparr>"

definition example_history :: "message list" where
  "example_history = [mk_message System ''be brief'', mk_message User ''hello world!'',
                      mk_message Assistant ''ok'']"

definition example_write_options :: write_options where
  "example_write_options = \<lparr>write_sessionId = Some ''s'', write_agentName = None\<rparr>"

definition example_sliding :: sliding_window_memory where
  "example_sliding = \<lparr>sw_maxTokens = 6, sw_maxTurns = 50, sw_sessions = Map.empty, sw_meta = Map.empty\<rparr>"

definition text_response :: "string \<Rightarrow> model_response" where
  "text_response c = \<lparr>resp_message = mk_message Assistant c, resp_toolCalls = None, resp_usage = None\<rparr>"

definition calls_response :: "string \<Rightarrow> tool_call list \<Rightarrow> model_response" where
  "calls_response c calls =
     \<lparr>resp_message = (mk_message Assistant c)\<lparr>msg_toolCalls := Some calls\<rparr>,
      resp_toolCalls = Some calls, resp_usage = None\<rparr>"

definition scripted :: "model_response list \<Rightarrow> model_provider" where
  "scripted answers n req =
     (if n < length answers then Inr (answers ! n) else Inl (ModelFailure ''script exhausted''))"

definition echo_call :: tool_call where
  "echo_call = \<lparr>call_id = ''c1'', call_name = ''echo'', arguments = []\<rparr>"

definition finish_call :: tool_call where
  "finish_call = \<lparr>call_id = ''c2'', call_name = ''finish'', arguments = [(''result'', JStr ''X'')]\<rparr>"

definition example_autonomous :: autonomous_config where
  "example_autonomous = \<lparr>autonomous_maxSteps = 30, finishToolName = ''finish'',
      finishToolDescription = ''Signal that you have completed the task.''\<rparr>"


definition react_example :: "(error + string) \<times> run_state" where
  "react_example = engine_execute (React \<lparr>react_maxSteps = 3\<rparr>)
      (example_rctx (scripted [calls_response ''checking'' [echo_call], text_response ''done'']) [])
      emptyState"

definition autonomous_example :: "model_response list \<Rightarrow> (error + string) \<times> run_state" where
  "autonomous_example answers = engine_execute (Autonomous example_autonomous)
      (example_rctx (scripted answers) []) emptyState"


text \<open>
  A provider from outside the package that keeps the messages of the last write,
  whatever the session, with and without a \<open>clear\<close>.
\<close>

definition notebook :: "message list \<Rightarrow> bool \<Rightarrow> message list external_memory" where
  "notebook kept clearable =
     \<lparr>ext_state = kept,
      ext_read = (\<lambda>s opts. Inr s),
      ext_write = (\<lambda>s msgs opts. (Inr (), msgs)),
      ext_clear = (if clearable then Some (\<lambda>s sid. (Inr (), [])) else None)\<rparr>"

definition example_buffer :: buffer_memory where
  "example_buffer = \<lparr>bm_maxMessages = 100, bm_maxTokens = None, bm_store = Map.empty,
                      bm_meta = Map.empty\<rparr>"

definition example_composite :: "bool \<Rightarrow> message list memory_provider" where
  "example_composite clearable =
     snd (memory_write (Composite [Buffer example_buffer, External (notebook [] clearable)] FirstHit)
            example_history example_write_options)"

section \<open>Verified properties\<close>

subsection \<open>Memory: clearing a session\<close>

lemma first_hit_empty: "first_hit rs = Inr [] \<longleftrightarrow> (\<forall>r \<in> set rs. r = Inr [])"
  by (induction rs rule: first_hit.induct) auto

lemma all_of_values: "all_of rs = Inr xs \<Longrightarrow> rs = map Inr xs"
  by (induction rs arbitrary: xs rule: all_of.induct) (auto split: sum.splits)

lemma merge_loop_grows: "length merged \<le> length (merge_loop msgs seen merged)"
proof (induction msgs seen merged rule: merge_loop.induct)
  case (1 seen merged)
  then show ?case by simp
next
  case (2 msg msgs seen merged)
  then show ?case by (cases "fingerprint msg \<in> set seen") auto
qed

lemma merge_loop_empty: "merge_loop msgs [] [] = [] \<longleftrightarrow> msgs = []"
proof (cases msgs)
  case Nil
  then show ?thesis by simp
next
  case (Cons msg rest)
  have "length [msg] \<le> length (merge_loop rest [fingerprint msg] [msg])"
    by (rule merge_loop_grows)
  with Cons show ?thesis by auto
qed

lemma merge_empty:
  "(case all_of rs of Inl es \<Rightarrow> Inl es | Inr all \<Rightarrow> Inr (merge_loop (concat all) [] [])) = Inr []
     \<longleftrightarrow> (\<forall>r \<in> set rs. r = Inr [])"
proof (cases "all_of rs")
  case (Inl es)
  then have "\<not> (\<forall>r \<in> set rs. r = Inr [])"
    by (induction rs arbitrary: es rule: all_of.induct) (auto split: sum.splits)
  with Inl show ?thesis by simp
next
  case (Inr all)
  then have rs: "rs = map Inr all" by (rule all_of_values)
  have "merge_loop (concat all) [] [] = [] \<longleftrightarrow> (\<forall>x \<in> set all. x = [])"
    by (simp add: merge_loop_empty)
  with Inr rs show ?thesis by auto
qed

lemma buffer_clear_read: "buffer_read (buffer_clear m sid) \<lparr>read_sessionId = sid\<rparr> = []"
  by (cases sid) (auto simp: buffer_read_def buffer_clear_def truthy_id_def session_of_def
      trimToTokenBudget_def split: option.splits)

lemma sliding_clear_read: "sliding_read (sliding_clear m sid) \<lparr>read_sessionId = sid\<rparr> = []"
  by (cases sid) (auto simp: sliding_read_def sliding_clear_def truthy_id_def session_of_def
      trimToTokenBudget_def split: option.splits)

lemma summarizing_clear_read:
  "summarizing_read (summarizing_clear m sid) \<lparr>read_sessionId = sid\<rparr> = []"
  by (cases sid) (auto simp: summarizing_read_def summarizing_clear_def truthy_id_def session_of_def
      split: option.splits)

lemma cleared_composite:
  "cleared sid (Composite providers strategy) \<longleftrightarrow> (\<forall>q \<in> set providers. cleared sid q)"
proof -
  have errs: "concat (map fst (map (\<lambda>q. memory_clear q sid) providers)) = []
      \<longleftrightarrow> (\<forall>q \<in> set providers. fst (memory_clear q sid) = [])"
    by (induction providers) auto
  have reads: "(\<forall>r \<in> set (map (\<lambda>q. memory_read q \<lparr>read_sessionId = sid\<rparr>)
            (map snd (map (\<lambda>q. memory_clear q sid) providers))). r = Inr [])
      \<longleftrightarrow> (\<forall>q \<in> set providers. memory_read (snd (memory_clear q sid)) \<lparr>read_sessionId = sid\<rparr> = Inr [])"
    by auto
  show ?thesis
  proof (cases strategy)
    case FirstHit
    have "cleared sid (Composite providers FirstHit) \<longleftrightarrow>
        concat (map fst (map (\<lambda>q. memory_clear q sid) providers)) = []
        \<and> first_hit (map (\<lambda>q. memory_read q \<lparr>read_sessionId = sid\<rparr>)
            (map snd (map (\<lambda>q. memory_clear q sid) providers))) = Inr []"
      by (simp add: cleared_def Let_def del: set_map map_map)
    with FirstHit show ?thesis
      unfolding first_hit_empty errs reads by (auto simp: cleared_def)
  next
    case Merge
    have "cleared sid (Composite providers Merge) \<longleftrightarrow>
        concat (map fst (map (\<lambda>q. memory_clear q sid) providers)) = []
        \<and> (case all_of (map (\<lambda>q. memory_read q \<lparr>read_sessionId = sid\<rparr>)
            (map snd (map (\<lambda>q. memory_clear q sid) providers))) of
              Inl es \<Rightarrow> Inl es | Inr all \<Rightarrow> Inr (merge_loop (concat all) [] [])) = Inr []"
      by (simp add: cleared_def Let_def del: set_map map_map)
    with Merge show ?thesis
      unfolding merge_empty errs reads by (auto simp: cleared_def)
  qed
qed

text \<open>
  C8, as the code has it. For Buffer, SlidingWindow and Summarizing memory and every
  session id (absent, empty or not), \<open>clear(sessionId)\<close> fulfils and \<open>read({sessionId})\<close>
  then returns the empty message list. For a Composite, with either read strategy, this
  holds exactly when it holds of each provider it wraps, under the call
  \<open>p.clear?.(sessionId)\<close>. So for any provider \<open>p\<close> it holds exactly when it holds of every
  provider from outside the package that \<open>p\<close> is or wraps: a Composite of providers of the
  package is cleared, and one that wraps a provider whose history outlives that call is
  not. A provider that has no \<open>clear\<close> is skipped by the call and stays as it is.
\<close>

theorem clear_then_read_empty:
  "cleared sid (Buffer b) \<and> cleared sid (SlidingWindow w) \<and> cleared sid (Summarizing m)
   \<and> (cleared sid (Composite providers strategy) \<longleftrightarrow> (\<forall>q \<in> set providers. cleared sid q))
   \<and> (cleared sid p \<longleftrightarrow> clears sid p)
   \<and> (ext_clear e = None \<longrightarrow> memory_clear (External e) sid = ([], External e))"
proof -
  have c: "cleared sid (Composite providers strategy) \<longleftrightarrow> (\<forall>q \<in> set providers. cleared sid q)"
    by (rule cleared_composite)
  have b: "cleared sid (Buffer b)" by (simp add: cleared_def buffer_clear_read)
  have w: "cleared sid (SlidingWindow w)" by (simp add: cleared_def sliding_clear_read)
  have m: "cleared sid (Summarizing m)" by (simp add: cleared_def summarizing_clear_read)
  have p: "cleared sid p \<longleftrightarrow> clears sid p"
  proof (induction p)
    case (Composite providers strategy)
    then show ?case by (simp add: cleared_composite list_all_iff)
  qed (simp_all add: cleared_def buffer_clear_read sliding_clear_read summarizing_clear_read)
  have e: "ext_clear e = None \<longrightarrow> memory_clear (External e) sid = ([], External e)" by simp
  from b w m c p e show ?thesis by (intro conjI)
qed

lemmas mem_ex_defs = summary_model_def example_summarizing_def example_history_def
  example_write_options_def example_sliding_def

theorem clear_then_read_empty_witness:
  "clears (Some ''s'') (example_composite True)
   \<and> memory_read (example_composite True) \<lparr>read_sessionId = Some ''s''\<rparr>
       = Inr [mk_message User ''hello world!'', mk_message Assistant ''ok'']
   \<and> fst (memory_clear (example_composite True) (Some ''s'')) = []
   \<and> memory_read (snd (memory_clear (example_composite True) (Some ''s'')))
        \<lparr>read_sessionId = Some ''s''\<rparr> = Inr []
   \<and> ext_clear (notebook example_history False) = None
   \<and> memory_clear (External (notebook example_history False)) (Some ''s'')
       = ([], External (notebook example_history False))"
proof -
  have c: "clears (Some ''s'') (example_composite True)"
    by (simp add: example_composite_def notebook_def cleared_def Let_def)
  have r: "memory_read (example_composite True) \<lparr>read_sessionId = Some ''s''\<rparr>
       = Inr [mk_message User ''hello world!'', mk_message Assistant ''ok'']"
    by (simp add: example_composite_def notebook_def example_buffer_def mem_ex_defs Let_def
        buffer_write_def buffer_read_def session_of_def mk_message_def)
  note eq = clear_then_read_empty[THEN conjunct2, THEN conjunct2, THEN conjunct2,
      THEN conjunct2, THEN conjunct1]
  from c have d: "cleared (Some ''s'') (example_composite True)" by (simp only: eq)
  have n: "ext_clear (notebook example_history False) = None" by (simp add: notebook_def)
  note skip = clear_then_read_empty[THEN conjunct2, THEN conjunct2, THEN conjunct2,
      THEN conjunct2, THEN conjunct2, THEN mp, OF n]
  from c r d n skip show ?thesis by (simp add: cleared_def)
qed

text \<open>
  The claim as stated fails for a Composite that wraps a provider without \<open>clear\<close>:
  \<open>clear\<close> skips that provider (\<open>p.clear?.(sessionId)\<close>) and fulfils, and the \<open>read\<close> that
  follows returns the history that provider still holds.
\<close>

theorem composite_skips_provider_without_clear_counterexample:
  "ext_clear (notebook [] False) = None
   \<and> fst (memory_clear (example_composite False) (Some ''s'')) = []
   \<and> memory_read (snd (memory_clear (example_composite False) (Some ''s'')))
        \<lparr>read_sessionId = Some ''s''\<rparr>
       = Inr [mk_message System ''be brief'', mk_message User ''hello world!'',
              mk_message Assistant ''ok'']"
  by (simp add: example_composite_def notebook_def example_buffer_def mem_ex_defs Let_def
        buffer_write_def buffer_read_def buffer_clear_def truthy_id_def session_of_def mk_message_def)

subsection \<open>Middleware pipeline\<close>

declare dispatch.simps [simp del]

lemma entered_append: "entered_indices (xs @ ys) = entered_indices xs @ entered_indices ys"
  by (induction xs rule: entered_indices.induct) auto

lemma entered_bounds:
  "\<forall>j \<in> set (entered_indices (snd (dispatch scoped sc i))). i \<le> j \<and> j < length scoped"
  "\<forall>j \<in> set (entered_indices (snd (run_body scoped sc i body))). i < j \<and> j < length scoped"
proof (induction scoped sc i and scoped sc i body rule: dispatch_run_body.induct)
  case (1 scoped sc index)
  then show ?case
    by (cases "index \<ge> length scoped") (fastforce simp: dispatch.simps split: prod.splits)+
next
  case (4 scoped sc index rest)
  then show ?case
    by (fastforce simp: entered_append split: prod.splits sum.splits)
qed (auto split: prod.splits)

lemma no_next_no_entry:
  "CallNext \<notin> set body \<Longrightarrow> entered_indices (snd (run_body scoped sc i body)) = []"
  by (induction body rule: calls_next.induct) (auto split: prod.splits)

lemma short_circuit:
  "i \<le> k \<Longrightarrow> k < length scoped \<Longrightarrow> CallNext \<notin> set (mw_run (scoped ! k)) \<Longrightarrow>
     \<forall>j \<in> set (entered_indices (snd (dispatch scoped sc i))). j \<le> k"
  "i \<le> k \<Longrightarrow> k < length scoped \<Longrightarrow> CallNext \<notin> set (mw_run (scoped ! k)) \<Longrightarrow>
     set body \<subseteq> set (mw_run (scoped ! i)) \<Longrightarrow>
     \<forall>j \<in> set (entered_indices (snd (run_body scoped sc i body))). j \<le> k"
proof (induction scoped sc i and scoped sc i body rule: dispatch_run_body.induct)
  case (1 scoped sc index)
  then show ?case
    by (cases "index \<ge> length scoped") (auto simp: dispatch.simps split: prod.splits)
next
  case (4 scoped sc index rest)
  from 4(3-6) have "index \<noteq> k" by auto
  with 4 show ?case
    by (auto simp: entered_append split: prod.splits sum.splits)
qed (auto split: prod.splits)

lemma reach_drop: "i < length scoped \<Longrightarrow>
   reach (drop i scoped) = Suc (if calls_next (mw_run (scoped ! i)) then reach (drop (Suc i) scoped) else 0)"
  by (simp add: Cons_nth_drop_Suc[symmetric])

lemma in_order:
  "\<forall>m \<in> set scoped. next_count m \<le> 1 \<Longrightarrow>
     entered_indices (snd (dispatch scoped sc i)) = [i ..< i + reach (drop i scoped)]"
  "\<forall>m \<in> set scoped. next_count m \<le> 1 \<Longrightarrow> length (filter (\<lambda>a. a = CallNext) body) \<le> 1 \<Longrightarrow>
     entered_indices (snd (run_body scoped sc i body)) =
       (if calls_next body then [Suc i ..< Suc i + reach (drop (Suc i) scoped)] else [])"
proof (induction scoped sc i and scoped sc i body rule: dispatch_run_body.induct)
  case (1 scoped sc index)
  show ?case
  proof (cases "index \<ge> length scoped")
    case True
    then show ?thesis by (simp add: dispatch.simps)
  next
    case False
    then have "next_count (scoped ! index) \<le> 1" using 1(2) by simp
    then have "length (filter (\<lambda>a. a = CallNext) (mw_run (scoped ! index))) \<le> 1"
      by (simp add: next_count_def)
    from 1(1)[OF False 1(2) this] False show ?thesis
      by (auto simp: dispatch.simps reach_drop upt_conv_Cons split: prod.splits)
  qed
next
  case (4 scoped sc index rest)
  from 4(4) have "CallNext \<notin> set rest" by (auto simp: filter_empty_conv)
  then have "entered_indices (snd (run_body scoped sc index rest)) = []"
    by (rule no_next_no_entry)
  with 4(1)[OF 4(3)] show ?case
    by (auto simp: entered_append split: prod.splits sum.splits)
qed (auto split: prod.splits)

lemma reach_le: "reach ms \<le> length ms"
  by (induction ms) auto

lemma reach_all: "\<forall>m \<in> set ms. calls_next (mw_run m) \<Longrightarrow> reach ms = length ms"
  by (induction ms) auto

lemma middleware_run_events:
  "middleware_run registered sc st = (r, st') \<Longrightarrow>
     st' = st\<lparr>events := events st @ snd (dispatch (filter (matches sc) registered) sc 0)\<rparr>
     \<and> r = fst (dispatch (filter (matches sc) registered) sc 0)"
  by (auto simp: middleware_run_def Let_def split: prod.splits)

lemma started_run:
  "middleware_run registered sc st = (r, st') \<Longrightarrow>
     started st st' = entered_indices (snd (dispatch (filter (matches sc) registered) sc 0))"
  by (drule middleware_run_events) (simp add: started_def)

text \<open>
  C7, as the code has it. One invocation of the pipeline for a scope, with \<open>scoped\<close> the
  registered middleware that match the scope, in registration order. (0) A middleware
  matches a scope when it has no scope, when its scope is that scope, or when its scope
  is an array that holds that scope, and in no other case. (1) Every body that starts
  is one of \<open>scoped\<close>: it is registered and matches. (2) When no matching middleware calls
  its continuation more than once, the bodies started are \<open>scoped ! 0, scoped ! 1, ...\<close>,
  each once and in this order, down to the first one that does not reach a call of its
  continuation; when every one reaches it, these are all of \<open>scoped\<close>. (3) Whatever the
  other bodies do, when the middleware at index \<open>k\<close> never calls its continuation, no
  middleware after it starts.
\<close>

theorem middleware_run_matching_in_order:
  assumes run: "middleware_run registered sc st = (r, st')"
  shows "(\<forall>m. matches sc m \<longleftrightarrow>
            (mw_scope m = None \<or> mw_scope m = Some (One sc)
             \<or> (\<exists>scopes. mw_scope m = Some (Many scopes) \<and> sc \<in> set scopes)))
       \<and> (\<forall>i \<in> set (started st st').
            i < length (filter (matches sc) registered)
            \<and> matches sc (filter (matches sc) registered ! i)
            \<and> filter (matches sc) registered ! i \<in> set registered)
       \<and> ((\<forall>m \<in> set (filter (matches sc) registered). next_count m \<le> 1) \<longrightarrow>
            started st st' = [0 ..< reach (filter (matches sc) registered)]
            \<and> reach (filter (matches sc) registered) \<le> length (filter (matches sc) registered)
            \<and> ((\<forall>m \<in> set (filter (matches sc) registered). calls_next (mw_run m)) \<longrightarrow>
                 started st st' = [0 ..< length (filter (matches sc) registered)]))
       \<and> (\<forall>k < length (filter (matches sc) registered).
            CallNext \<notin> set (mw_run (filter (matches sc) registered ! k)) \<longrightarrow>
            (\<forall>i \<in> set (started st st'). i \<le> k))"
proof -
  let ?scoped = "filter (matches sc) registered"
  have st: "started st st' = entered_indices (snd (dispatch ?scoped sc 0))"
    using run by (rule started_run)
  have zero: "\<forall>m. matches sc m \<longleftrightarrow>
            (mw_scope m = None \<or> mw_scope m = Some (One sc)
             \<or> (\<exists>scopes. mw_scope m = Some (Many scopes) \<and> sc \<in> set scopes))"
    by (auto simp: matches_def split: option.splits scope_spec.splits)
  have one: "\<forall>i \<in> set (started st st'). i < length ?scoped
      \<and> matches sc (?scoped ! i) \<and> ?scoped ! i \<in> set registered"
  proof
    fix i assume "i \<in> set (started st st')"
    then have lt: "i < length ?scoped" using entered_bounds(1)[of ?scoped sc 0] st by simp
    then have "?scoped ! i \<in> set ?scoped" by (rule nth_mem)
    then show "i < length ?scoped \<and> matches sc (?scoped ! i) \<and> ?scoped ! i \<in> set registered"
      using lt by simp
  qed
  have two: "(\<forall>m \<in> set ?scoped. next_count m \<le> 1) \<longrightarrow>
      started st st' = [0 ..< reach ?scoped] \<and> reach ?scoped \<le> length ?scoped
      \<and> ((\<forall>m \<in> set ?scoped. calls_next (mw_run m)) \<longrightarrow> started st st' = [0 ..< length ?scoped])"
  proof
    assume once: "\<forall>m \<in> set ?scoped. next_count m \<le> 1"
    have a: "started st st' = [0 ..< reach ?scoped]"
      using in_order(1)[OF once, of sc 0] st by simp
    have b: "(\<forall>m \<in> set ?scoped. calls_next (mw_run m)) \<longrightarrow> started st st' = [0 ..< length ?scoped]"
      using a reach_all[of ?scoped] by simp
    show "started st st' = [0 ..< reach ?scoped] \<and> reach ?scoped \<le> length ?scoped
      \<and> ((\<forall>m \<in> set ?scoped. calls_next (mw_run m)) \<longrightarrow> started st st' = [0 ..< length ?scoped])"
      using a b reach_le[of ?scoped] by blast
  qed
  have three: "\<forall>k < length ?scoped. CallNext \<notin> set (mw_run (?scoped ! k)) \<longrightarrow>
      (\<forall>i \<in> set (started st st'). i \<le> k)"
    using short_circuit(1)[of 0 _ ?scoped sc] st by simp
  from zero one two three show ?thesis by blast
qed

lemmas ex_mw_defs = logger_mw_def guard_mw_def audit_mw_def tail_mw_def example_pipeline_def

lemma run_ex: "middleware_run example_pipeline ToolBefore emptyState =
     (Inr (), emptyState\<lparr>events := [Entered ToolBefore 0, Effected ''before'',
        Entered ToolBefore 1, Effected ''blocked'', Effected ''after'']\<rparr>)"
  by (simp add: middleware_run_def ex_mw_defs matches_def dispatch.simps emptyState_def)

theorem middleware_run_matching_in_order_witness:
  "middleware_run example_pipeline ToolBefore emptyState =
     (Inr (), emptyState\<lparr>events := [Entered ToolBefore 0, Effected ''before'',
        Entered ToolBefore 1, Effected ''blocked'', Effected ''after'']\<rparr>)
   \<and> filter (matches ToolBefore) example_pipeline = [logger_mw, guard_mw, tail_mw]
   \<and> list_all (\<lambda>m. next_count m \<le> 1) (filter (matches ToolBefore) example_pipeline)
   \<and> CallNext \<notin> set (mw_run (filter (matches ToolBefore) example_pipeline ! 1))
   \<and> reach (filter (matches ToolBefore) example_pipeline) = 2
   \<and> started emptyState (emptyState\<lparr>events := [Entered ToolBefore 0, Effected ''before'',
        Entered ToolBefore 1, Effected ''blocked'', Effected ''after'']\<rparr>) = [0, 1]"
proof -
  have f: "filter (matches ToolBefore) example_pipeline = [logger_mw, guard_mw, tail_mw]"
    by (simp add: ex_mw_defs matches_def)
  have once: "\<forall>m \<in> set (filter (matches ToolBefore) example_pipeline). next_count m \<le> 1"
    unfolding f by (simp add: ex_mw_defs next_count_def)
  have stop: "CallNext \<notin> set (mw_run (filter (matches ToolBefore) example_pipeline ! 1))"
    unfolding f by (simp add: ex_mw_defs)
  have r: "reach (filter (matches ToolBefore) example_pipeline) = 2"
    unfolding f by (simp add: ex_mw_defs)
  from middleware_run_matching_in_order[OF run_ex] once
  have "started emptyState (emptyState\<lparr>events := [Entered ToolBefore 0, Effected ''before'',
        Entered ToolBefore 1, Effected ''blocked'', Effected ''after'']\<rparr>)
        = [0 ..< reach (filter (matches ToolBefore) example_pipeline)]"
    by blast
  then have s: "started emptyState (emptyState\<lparr>events := [Entered ToolBefore 0, Effected ''before'',
        Entered ToolBefore 1, Effected ''blocked'', Effected ''after'']\<rparr>) = [0, 1]"
    unfolding r by (simp add: upt_rec)
  from run_ex f once stop r s show ?thesis by (simp add: list_all_iff)
qed

text \<open>
  The claim as stated fails when a middleware calls its continuation twice: the rest
  of the chain runs once for each call, so the bodies started are not in registration
  order and the later ones start twice.
\<close>

theorem middleware_next_twice_counterexample:
  "filter (matches ToolBefore) [twice_mw, tail_mw, guard_mw] = [twice_mw, tail_mw, guard_mw]
   \<and> fst (middleware_run [twice_mw, tail_mw, guard_mw] ToolBefore emptyState) = Inr ()
   \<and> started emptyState (snd (middleware_run [twice_mw, tail_mw, guard_mw] ToolBefore emptyState))
       = [0, 1, 2, 1, 2]"
  by (simp add: middleware_run_def ex_mw_defs twice_mw_def matches_def dispatch.simps
      emptyState_def started_def)

subsection \<open>Tool invocation protocol\<close>

text \<open>
  C10. When the name is not in the registry, or is registered and excluded by
  \<open>policy.allowedTools\<close>, \<open>callTool\<close> throws and leaves the whole state as it was: no
  step, no message, no \<open>toolCalls\<close> pair, no event emitted and no middleware run.
\<close>

theorem callTool_rejected_unchanged:
  assumes "registry_get (tools rc) name = None \<or> \<not> isAllowed name (allowedTools (policy rc))"
  shows "callTool rc name args callId st =
     (Inl (if registry_get (tools rc) name = None then UnknownTool name else ToolNotAllowed name), st)"
  using assms by (auto simp: callTool_def split: option.splits)

lemmas ex_defs = example_rctx_def boom_tool_def echo_tool_def register_def registry_get_def
  isAllowed_def failing_mw_def example_stringify_def

theorem callTool_rejected_unchanged_witness:
  "registry_get (tools (example_rctx offline_model [])) ''ghost'' = None
   \<and> callTool (example_rctx offline_model []) ''ghost'' [] ''c1'' emptyState
       = (Inl (UnknownTool ''ghost''), emptyState)
   \<and> \<not> isAllowed ''echo'' (allowedTools (policy ((example_rctx offline_model [])\<lparr>policy := \<lparr>allowedTools = Some [''boom''], tokenBudget = None\<rparr>\<rparr>)))
   \<and> callTool ((example_rctx offline_model [])\<lparr>policy := \<lparr>allowedTools = Some [''boom''], tokenBudget = None\<rparr>\<rparr>) ''echo'' [] ''c2'' emptyState
       = (Inl (ToolNotAllowed ''echo''), emptyState)"
proof -
  have a: "registry_get (tools (example_rctx offline_model [])) ''ghost'' = None"
    by (simp add: ex_defs)
  have b: "\<not> isAllowed ''echo'' (allowedTools (policy ((example_rctx offline_model [])\<lparr>policy := \<lparr>allowedTools = Some [''boom''], tokenBudget = None\<rparr>\<rparr>)))"
    by (simp add: ex_defs)
  have c: "registry_get (tools ((example_rctx offline_model [])\<lparr>policy := \<lparr>allowedTools = Some [''boom''], tokenBudget = None\<rparr>\<rparr>)) ''echo'' \<noteq> None"
    by (simp add: ex_defs)
  show ?thesis
    using callTool_rejected_unchanged[of "example_rctx offline_model []" "''ghost''" "[]" "''c1''" emptyState]
      callTool_rejected_unchanged[of "(example_rctx offline_model [])\<lparr>policy := \<lparr>allowedTools = Some [''boom''], tokenBudget = None\<rparr>\<rparr>" "''echo''" "[]" "''c2''" emptyState]
      a b c by simp
qed


lemma snapshot_events [simp]: "snapshot (st\<lparr>events := es\<rparr>) = snapshot st"
  by (simp add: snapshot_def)




subsection \<open>Summarizing memory\<close>


lemma write_compress_eq:
  assumes "int (estimateMessagesTokens (activeMessages (pending_session m msgs opts))) > activeWindowTokens m"
    and "sm_model m (sm_modelCalls m) (compress_request m (pending_session m msgs opts)) = Inr response"
  shows "summarizing_write m msgs opts =
    (Inr (), m\<lparr>sm_modelCalls := sm_modelCalls m + 1,
       sm_sessions := (sm_sessions m)(session_of (write_sessionId opts) \<mapsto>
         (pending_session m msgs opts)\<lparr>
            summary := Some (slice_to (summaryMaxTokens m * 4) (content (resp_message response))),
            activeMessages := drop (length (activeMessages (pending_session m msgs opts)) div 2)
                (activeMessages (pending_session m msgs opts))\<rparr>)\<rparr>)"
  using assms by (simp add: summarizing_write_def compress_def Let_def)

lemma pending_active:
  "activeMessages (pending_session m msgs opts) = filter (\<lambda>msg. role msg \<noteq> System) msgs"
  by (simp add: pending_session_def Let_def)

lemma pending_summary: "summary (pending_session m msgs opts) =
   (case sm_sessions m (session_of (write_sessionId opts)) of None \<Rightarrow> None | Some s \<Rightarrow> summary s)"
  by (simp add: pending_session_def Let_def split: option.splits)

lemma request_content:
  "map content (req_messages (compress_request m session)) =
     [summaryPrompt m,
      (case truthy_summary (summary session) of None \<Rightarrow> []
        | Some s \<Rightarrow> ''Previous summary:'' @ newline @ s @ newline @ newline @ ''New conversation to add:'')
      @ newline
      @ join newline (map (\<lambda>msg. role_upper (role msg) @ '': '' @ content msg)
           (take (length (activeMessages session) div 2) (activeMessages session)))]"
  by (simp add: compress_request_def Let_def mk_message_def split: option.splits)

lemma read_after: "sm_sessions m' (session_of sid) = Some session \<Longrightarrow> summary session = Some s \<Longrightarrow>
  summarizing_read m' \<lparr>read_sessionId = sid\<rparr> = summary_message s @ activeMessages session"
  by (simp add: summarizing_read_def summary_message_def truthy_summary_def)

lemma slice_to_len: "0 \<le> e \<Longrightarrow> length (slice_to e s) \<le> nat e"
  by (simp add: slice_to_def)

text \<open>
  C5, as the code has it. When a write leaves the active window over
  \<open>activeWindowTokens\<close> and the model answers: the model is called once, with a prompt that
  holds the prior summary (when there is a non-empty one) and the oldest
  \<open>floor(n/2)\<close> messages; the stored summary is the answer cut to
  \<open>summaryMaxTokens * 4\<close> characters; the newer half is the new active window; and a read
  returns that window in order, preceded by one \<open>system\<close> message holding the summary
  when the stored summary is not empty.
\<close>

theorem summarizing_compress_then_read:
  assumes exceeds: "int (estimateMessagesTokens (activeMessages (pending_session m msgs opts)))
                      > activeWindowTokens m"
    and answer: "sm_model m (sm_modelCalls m) (compress_request m (pending_session m msgs opts))
                   = Inr response"
  shows "\<exists>m' session.
      summarizing_write m msgs opts = (Inr (), m')
    \<and> sm_modelCalls m' = sm_modelCalls m + 1
    \<and> map content (req_messages (compress_request m (pending_session m msgs opts))) =
        [summaryPrompt m,
         (case sm_sessions m (session_of (write_sessionId opts)) of
            None \<Rightarrow> []
          | Some old \<Rightarrow> (case truthy_summary (summary old) of
               None \<Rightarrow> []
             | Some s \<Rightarrow> ''Previous summary:'' @ newline @ s @ newline @ newline
                          @ ''New conversation to add:''))
         @ newline
         @ join newline (map (\<lambda>msg. role_upper (role msg) @ '': '' @ content msg)
             (take (length (filter (\<lambda>msg. role msg \<noteq> System) msgs) div 2)
                (filter (\<lambda>msg. role msg \<noteq> System) msgs)))]
    \<and> sm_sessions m' (session_of (write_sessionId opts)) = Some session
    \<and> summary session = Some (slice_to (summaryMaxTokens m * 4) (content (resp_message response)))
    \<and> (0 \<le> summaryMaxTokens m \<longrightarrow> summary session
          = Some (take (nat (summaryMaxTokens m * 4)) (content (resp_message response))))
    \<and> activeMessages session =
        drop (length (filter (\<lambda>msg. role msg \<noteq> System) msgs) div 2)
          (filter (\<lambda>msg. role msg \<noteq> System) msgs)
    \<and> summarizing_read m' \<lparr>read_sessionId = write_sessionId opts\<rparr> =
        summary_message (slice_to (summaryMaxTokens m * 4) (content (resp_message response)))
        @ drop (length (filter (\<lambda>msg. role msg \<noteq> System) msgs) div 2)
            (filter (\<lambda>msg. role msg \<noteq> System) msgs)"
proof -
  let ?clamped = "slice_to (summaryMaxTokens m * 4) (content (resp_message response))"
  let ?nonSystem = "filter (\<lambda>msg. role msg \<noteq> System) msgs"
  let ?session = "(pending_session m msgs opts)\<lparr>summary := Some ?clamped,
      activeMessages := drop (length ?nonSystem div 2) ?nonSystem\<rparr>"
  let ?m' = "m\<lparr>sm_modelCalls := sm_modelCalls m + 1,
      sm_sessions := (sm_sessions m)(session_of (write_sessionId opts) \<mapsto> ?session)\<rparr>"
  have w: "summarizing_write m msgs opts = (Inr (), ?m')"
    using write_compress_eq[OF exceeds answer] by (simp add: pending_active)
  have calls: "sm_modelCalls ?m' = sm_modelCalls m + 1" by simp
  have req: "map content (req_messages (compress_request m (pending_session m msgs opts))) =
        [summaryPrompt m,
         (case sm_sessions m (session_of (write_sessionId opts)) of
            None \<Rightarrow> []
          | Some old \<Rightarrow> (case truthy_summary (summary old) of
               None \<Rightarrow> []
             | Some s \<Rightarrow> ''Previous summary:'' @ newline @ s @ newline @ newline
                          @ ''New conversation to add:''))
         @ newline
         @ join newline (map (\<lambda>msg. role_upper (role msg) @ '': '' @ content msg)
             (take (length ?nonSystem div 2) ?nonSystem))]"
    by (simp add: request_content pending_active pending_summary truthy_summary_def
        split: option.splits)
  have stored: "sm_sessions ?m' (session_of (write_sessionId opts)) = Some ?session" by simp
  have summ: "summary ?session = Some ?clamped" by simp
  have clamp: "0 \<le> summaryMaxTokens m \<longrightarrow> summary ?session
          = Some (take (nat (summaryMaxTokens m * 4)) (content (resp_message response)))"
    by (simp add: slice_to_def)
  have act: "activeMessages ?session = drop (length ?nonSystem div 2) ?nonSystem" by simp
  have rd: "summarizing_read ?m' \<lparr>read_sessionId = write_sessionId opts\<rparr> =
        summary_message ?clamped @ drop (length ?nonSystem div 2) ?nonSystem"
    using read_after[OF stored summ] by simp
  show ?thesis
    apply (rule exI[where x = ?m'])
    apply (rule exI[where x = ?session])
    apply (intro conjI)
           apply (rule w)
          apply (rule calls)
         apply (rule req)
        apply (rule stored)
       apply (rule summ)
      apply (rule clamp)
     apply (rule act)
    apply (rule rd)
    done
qed

text \<open>
  The claim as stated fails when the model answers with an empty text: the stored
  summary is empty, and the read starts with the retained window, not a \<open>system\<close>
  message.
\<close>

theorem summarizing_empty_summary_counterexample:
  "int (estimateMessagesTokens (activeMessages
        (pending_session (example_summarizing []) example_history example_write_options)))
     > activeWindowTokens (example_summarizing [])
   \<and> fst (summarizing_write (example_summarizing []) example_history example_write_options) = Inr ()
   \<and> summarizing_read (snd (summarizing_write (example_summarizing []) example_history example_write_options))
        \<lparr>read_sessionId = Some ''s''\<rparr> = [mk_message Assistant ''ok'']"
  by (simp add: mem_ex_defs summarizing_write_def summarizing_read_def pending_session_def
      compress_def compress_request_def session_of_def truthy_summary_def slice_to_def
      estimateMessagesTokens_def estimateTokens_def mk_message_def Let_def)

theorem summarizing_compress_then_read_witness:
  "int (estimateMessagesTokens (activeMessages
        (pending_session (example_summarizing ''greeting exchanged'') example_history example_write_options)))
     > activeWindowTokens (example_summarizing ''greeting exchanged'')
   \<and> fst (summarizing_write (example_summarizing ''greeting exchanged'') example_history example_write_options) = Inr ()
   \<and> summarizing_read (snd (summarizing_write (example_summarizing ''greeting exchanged'') example_history example_write_options))
        \<lparr>read_sessionId = Some ''s''\<rparr>
       = [mk_message System (''[Conversation summary so far]'' @ newline @ ''gree''),
          mk_message Assistant ''ok'']"
proof -
  let ?m = "example_summarizing ''greeting exchanged''"
  let ?response = "\<lparr>resp_message = mk_message Assistant ''greeting exchanged'', resp_toolCalls = None, resp_usage = None\<rparr>"
  have e: "int (estimateMessagesTokens (activeMessages (pending_session ?m example_history example_write_options)))
     > activeWindowTokens ?m"
    by (simp add: mem_ex_defs pending_session_def estimateMessagesTokens_def estimateTokens_def
        mk_message_def session_of_def Let_def)
  have a: "sm_model ?m (sm_modelCalls ?m) (compress_request ?m (pending_session ?m example_history example_write_options))
      = Inr ?response"
    by (simp add: mem_ex_defs)
  from summarizing_compress_then_read[OF e a] e show ?thesis
    by (auto simp: mem_ex_defs summary_message_def slice_to_def mk_message_def)
qed

subsection \<open>Sliding window memory\<close>

lemma foldl_tokens:
  "foldl (\<lambda>acc msg. acc + estimateTokens (content msg) + 4) a msgs
     = a + sum_list (map (\<lambda>msg. estimateTokens (content msg) + 4) msgs)"
  by (induction msgs arbitrary: a) auto

lemma estimateMessagesTokens_sum:
  "estimateMessagesTokens msgs = sum_list (map (\<lambda>msg. estimateTokens (content msg) + 4) msgs)"
  by (simp add: estimateMessagesTokens_def foldl_tokens)

lemma trim_walk_take:
  "int t \<le> maxT \<Longrightarrow>
   \<exists>n. trim_walk ys maxT t acc = rev (take n ys) @ acc
      \<and> int (t + estimateMessagesTokens (take n ys)) \<le> maxT"
proof (induction ys arbitrary: t acc)
  case Nil
  then show ?case by (simp add: estimateMessagesTokens_sum)
next
  case (Cons msg older)
  let ?c = "estimateTokens (content msg) + 4"
  show ?case
  proof (cases "int (t + ?c) > maxT")
    case True
    with Cons.prems have "trim_walk (msg # older) maxT t acc = rev (take 0 (msg # older)) @ acc
        \<and> int (t + estimateMessagesTokens (take 0 (msg # older))) \<le> maxT"
      by (simp add: estimateMessagesTokens_sum)
    then show ?thesis by blast
  next
    case False
    then have le: "int (t + ?c) \<le> maxT" by simp
    from Cons.IH[OF le, of "msg # acc"] obtain n where
      n: "trim_walk older maxT (t + ?c) (msg # acc) = rev (take n older) @ msg # acc"
         "int (t + ?c + estimateMessagesTokens (take n older)) \<le> maxT"
      by blast
    with False have "trim_walk (msg # older) maxT t acc = rev (take (Suc n) (msg # older)) @ acc
        \<and> int (t + estimateMessagesTokens (take (Suc n) (msg # older))) \<le> maxT"
      by (simp add: estimateMessagesTokens_sum add.assoc)
    then show ?thesis by blast
  qed
qed

lemma estimate_rev: "estimateMessagesTokens (rev xs) = estimateMessagesTokens xs"
  by (simp add: estimateMessagesTokens_sum rev_map[symmetric])

lemma trim_suffix_within_budget:
  assumes nosys: "\<forall>msg \<in> set msgs. role msg \<noteq> System" and nonneg: "0 \<le> maxT"
  shows "\<exists>k. trimToTokenBudget msgs maxT = drop k msgs
           \<and> int (estimateMessagesTokens (trimToTokenBudget msgs maxT)) \<le> maxT"
proof -
  from nosys have f1: "filter (\<lambda>m. role m = System) msgs = []"
    by (auto simp: filter_empty_conv)
  from nosys have f2: "filter (\<lambda>m. role m \<noteq> System) msgs = msgs"
    by (auto simp: filter_id_conv)
  from nonneg have "int 0 \<le> maxT" by simp
  from trim_walk_take[OF this, of "rev msgs" "[]"] obtain n where
    n: "trim_walk (rev msgs) maxT 0 [] = rev (take n (rev msgs))"
       "int (estimateMessagesTokens (take n (rev msgs))) \<le> maxT"
    by auto
  have r: "rev (take n (rev msgs)) = drop (length msgs - n) msgs"
    by (simp add: rev_take)
  have "estimateMessagesTokens (drop (length msgs - n) msgs)
      = estimateMessagesTokens (take n (rev msgs))"
    using estimate_rev[of "take n (rev msgs)"] r by simp
  with n(2) have b: "int (estimateMessagesTokens (drop (length msgs - n) msgs)) \<le> maxT"
    by simp
  have "trimToTokenBudget msgs maxT = drop (length msgs - n) msgs"
    using n(1) r f1 f2 by (simp add: trimToTokenBudget_def Let_def estimateMessagesTokens_sum)
  with b have "trimToTokenBudget msgs maxT = drop (length msgs - n) msgs
      \<and> int (estimateMessagesTokens (trimToTokenBudget msgs maxT)) \<le> maxT"
    by simp
  then show ?thesis by blast
qed

text \<open>
  What \<open>read\<close> does keep of the claim: on a session whose stored turns hold no \<open>system\<close>
  message (\<open>write\<close> stores none) and for a budget that is not negative, it returns a
  suffix of the flattened messages whose estimated tokens are within \<open>maxTokens\<close>.
\<close>

lemma sliding_read_suffix_within_budget:
  assumes "sw_sessions m (session_of sid) = Some turns"
    and "\<forall>msg \<in> set (concat turns). role msg \<noteq> System"
    and "0 \<le> sw_maxTokens m"
  shows "\<exists>k. sliding_read m \<lparr>read_sessionId = sid\<rparr> = drop k (concat turns)
           \<and> int (estimateMessagesTokens (sliding_read m \<lparr>read_sessionId = sid\<rparr>)) \<le> sw_maxTokens m"
  using trim_suffix_within_budget[OF assms(2) assms(3)] assms(1)
  by (simp add: sliding_read_def Let_def)

text \<open>
  C3 at a concrete session: one stored turn of two messages, of which the token budget
  admits only the newer. \<open>read\<close> returns the assistant message alone: the turn is split.
\<close>

theorem sliding_read_splits_turn:
  "sw_sessions (sliding_write example_sliding example_history example_write_options) ''s''
     = Some [[mk_message User ''hello world!'', mk_message Assistant ''ok'']]
   \<and> sliding_read (sliding_write example_sliding example_history example_write_options)
        \<lparr>read_sessionId = Some ''s''\<rparr> = [mk_message Assistant ''ok'']"
  by (simp add: mem_ex_defs sliding_write_def sliding_read_def groupIntoTurns_def
      no_pending_calls_def slice_last_def session_of_def trimToTokenBudget_def
      estimateMessagesTokens_def estimateTokens_def mk_message_def Let_def)

section \<open>Reasoning engines\<close>

subsection \<open>What model and tool calls do to the step list\<close>

declare react_loop.simps [simp del] cot_loop.simps [simp del] task_loop.simps [simp del]
  generate_loop.simps [simp del] reflect_loop.simps [simp del] autonomous_loop.simps [simp del]

lemma steps_pushStep [simp]: "steps (pushStep s st) = steps st @ [s]"
  by (simp add: pushStep_def emit_def)

lemma steps_push_message [simp]: "steps (push_message m st) = steps st"
  by (simp add: push_message_def)

lemma steps_add_usage [simp]: "steps (add_usage u st) = steps st"
  by (simp add: add_usage_def)

lemma steps_middleware_run: "middleware_run mws sc st = (r, st') \<Longrightarrow> steps st' = steps st"
  by (auto simp: middleware_run_def Let_def split: prod.splits)

lemma steps_complete: "complete rc req st = (r, st1) \<Longrightarrow> steps st1 = steps st"
  by (auto simp: complete_def)

lemma steps_callModel: "callModel rc msgs opts st = (r, st1) \<Longrightarrow> steps st1 = steps st"
  by (auto simp: callModel_def complete_def Let_def split: sum.splits option.splits if_splits)

lemma extends_refl: "extends P st st"
  by (simp add: extends_def)

lemma extends_same: "steps st' = steps st \<Longrightarrow> extends P st st'"
  by (simp add: extends_def)

lemma extends_trans: "extends P st st1 \<Longrightarrow> extends P st1 st2 \<Longrightarrow> extends P st st2"
  unfolding extends_def by (metis append.assoc list_all_append)

lemma extends_mono: "extends P st st' \<Longrightarrow> (\<And>s. P s \<Longrightarrow> Q s) \<Longrightarrow> extends Q st st'"
  unfolding extends_def by (auto simp: list_all_iff)

lemma extends_answered:
  "extends calm st st1 \<Longrightarrow> answered nm text st1 st2 \<Longrightarrow> answered nm text st st2"
  unfolding extends_def answered_def
  by (metis append.assoc list_all_append)

lemma run_ok_after: "extends calm st st1 \<Longrightarrow> run_ok nm st1 (r, st') \<Longrightarrow> run_ok nm st (r, st')"
proof (cases r)
  case (Inl e)
  assume a: "extends calm st st1" and b: "run_ok nm st1 (r, st')"
  from a have "extends (\<lambda>s. type_of s \<noteq> Tool_call) st st1"
    by (rule extends_mono) (simp add: calm_def)
  with b Inl show ?thesis by (auto intro: extends_trans)
next
  case (Inr t)
  assume "extends calm st st1" and "run_ok nm st1 (r, st')"
  with Inr show ?thesis by (auto intro: extends_answered)
qed

lemma run_ok_fail: "extends calm st st' \<Longrightarrow> run_ok nm st (Inl e, st')"
  by (auto elim!: extends_mono simp: calm_def)

lemma run_ok_push:
  "extends calm st st1 \<Longrightarrow> run_ok nm st (Inr text, pushStep (ResponseStep text nm) st1)"
  by (auto simp: answered_def extends_def calm_def list_all_iff)

lemma callTool_results: "callTool rc name args callId st = (r, st1) \<Longrightarrow> extends is_result st st1"
  unfolding callTool_def Let_def
  by (auto simp: extends_def emit_def invoke_def record_call_def push_message_def is_result_def
      split: option.splits if_splits prod.splits sum.splits dest!: steps_middleware_run)

lemma executeCalls_results: "executeCalls rc calls st = (r, st1) \<Longrightarrow> extends is_result st st1"
proof (induction calls arbitrary: st)
  case Nil
  then show ?case by (simp add: extends_refl)
next
  case (Cons tc tcs)
  obtain r0 st0 where c: "callTool rc (call_name tc) (arguments tc) (call_id tc) st = (r0, st0)"
    by force
  from callTool_results[OF c] have q: "extends is_result st st0" .
  show ?case
  proof (cases r0)
    case (Inl e)
    with Cons.prems c q show ?thesis by simp
  next
    case (Inr v)
    with Cons.prems c have "executeCalls rc tcs st0 = (r, st1)" by simp
    from Cons.IH[OF this] q show ?thesis by (rule extends_trans[rotated])
  qed
qed

lemma executeToolCalls_results:
  "executeToolCalls rc response st = (r, st1) \<Longrightarrow> extends is_result st st1"
  by (auto simp: executeToolCalls_def extends_refl split: if_splits dest: executeCalls_results)

lemma task_calls_results: "task_calls rc calls msgs st = (r, st1) \<Longrightarrow> extends is_result st st1"
proof (induction calls arbitrary: st msgs)
  case Nil
  then show ?case by (simp add: extends_refl)
next
  case (Cons tc tcs)
  obtain r0 st0 where c: "callTool rc (call_name tc) (arguments tc) (call_id tc) st = (r0, st0)"
    by force
  from callTool_results[OF c] have q: "extends is_result st st0" .
  show ?case
  proof (cases r0)
    case (Inl e)
    with Cons.prems c q show ?thesis by simp
  next
    case (Inr v)
    show ?thesis
    proof (cases "stringify rc v")
      case None
      with Cons.prems c Inr q show ?thesis by simp
    next
      case (Some body)
      with Cons.prems c Inr
      have "task_calls rc tcs (msgs @ [tool_message body (call_id tc)]) st0 = (r, st1)"
        by simp
      from Cons.IH[OF this] q show ?thesis by (rule extends_trans[rotated])
    qed
  qed
qed

lemma results_calm: "extends is_result st st' \<Longrightarrow> extends calm st st'"
  by (erule extends_mono) (simp add: is_result_def calm_def)

lemmas turn_simps = extends_def answered_def calm_def is_result_def list_all_iff

lemma react_turn_ok: "react_turn rc st = (r, st') \<Longrightarrow> turn_ok ''react'' st (r, st')"
  unfolding react_turn_def Let_def
  by (auto simp: turn_simps split: prod.splits sum.splits if_splits
      dest!: steps_callModel executeToolCalls_results)

lemma cot_turn_ok: "cot_turn rc st = (r, st') \<Longrightarrow> turn_ok ''cot'' st (r, st')"
  unfolding cot_turn_def Let_def
  by (auto simp: turn_simps split: prod.splits sum.splits if_splits
      dest!: steps_callModel executeToolCalls_results)

lemma autonomous_turn_ok:
  "autonomous_turn cfg rc schemas st = (r, st') \<Longrightarrow> turn_ok ''autonomous'' st (r, st')"
  unfolding autonomous_turn_def Let_def
  by (auto simp: turn_simps split: prod.splits sum.splits if_splits option.splits
      dest!: steps_complete executeCalls_results)

lemma generate_turn_results: "generate_turn rc st = (r, st') \<Longrightarrow> extends is_result st st'"
  unfolding generate_turn_def Let_def
  by (auto simp: turn_simps split: prod.splits sum.splits if_splits
      dest!: steps_callModel executeToolCalls_results)

lemma task_turn_results: "task_turn rc msgs st = (r, st') \<Longrightarrow> extends is_result st st'"
  unfolding task_turn_def Let_def
  by (auto simp: turn_simps split: prod.splits sum.splits if_splits
      dest!: steps_callModel task_calls_results)

subsection \<open>The loops of the engines\<close>

lemma react_loop_ok: "react_loop rc cfg n st = (r, st') \<Longrightarrow> run_ok ''react'' st (r, st')"
proof (induction rc cfg n st arbitrary: r st' rule: react_loop.induct)
  case (1 rc cfg n st)
  show ?case
  proof (cases "n < react_maxSteps cfg")
    case False
    with 1(2) show ?thesis by (auto simp: react_loop.simps[of rc cfg n st] extends_refl)
  next
    case True
    obtain r1 st1 where t: "react_turn rc st = (r1, st1)" by force
    from react_turn_ok[OF t] have ok: "turn_ok ''react'' st (r1, st1)" .
    show ?thesis
    proof (cases r1)
      case (Inl e)
      with 1(2) True t ok show ?thesis
        by (auto simp: react_loop.simps[of rc cfg n st] intro: run_ok_fail)
    next
      case (Inr f)
      show ?thesis
      proof (cases f)
        case (Return out)
        with 1(2) True t ok Inr show ?thesis by (auto simp: react_loop.simps[of rc cfg n st])
      next
        case (Again u)
        with 1(2) True t Inr have rec: "react_loop rc cfg (n + 1) st1 = (r, st')"
          by (simp add: react_loop.simps[of rc cfg n st])
        from ok Inr Again have q: "extends calm st st1" by simp
        from 1(1)[OF True t[symmetric] Inr Again rec] have "run_ok ''react'' st1 (r, st')" .
        with q show ?thesis by (rule run_ok_after)
      qed
    qed
  qed
qed

lemma cot_loop_ok: "cot_loop rc cfg n st = (r, st') \<Longrightarrow> run_ok ''cot'' st (r, st')"
proof (induction rc cfg n st arbitrary: r st' rule: cot_loop.induct)
  case (1 rc cfg n st)
  show ?case
  proof (cases "n < maxToolSteps cfg")
    case False
    with 1(2) show ?thesis by (auto simp: cot_loop.simps[of rc cfg n st] extends_refl)
  next
    case True
    obtain r1 st1 where t: "cot_turn rc st = (r1, st1)" by force
    from cot_turn_ok[OF t] have ok: "turn_ok ''cot'' st (r1, st1)" .
    show ?thesis
    proof (cases r1)
      case (Inl e)
      with 1(2) True t ok show ?thesis
        by (auto simp: cot_loop.simps[of rc cfg n st] intro: run_ok_fail)
    next
      case (Inr f)
      show ?thesis
      proof (cases f)
        case (Return out)
        with 1(2) True t ok Inr show ?thesis by (auto simp: cot_loop.simps[of rc cfg n st])
      next
        case (Again u)
        with 1(2) True t Inr have rec: "cot_loop rc cfg (n + 1) st1 = (r, st')"
          by (simp add: cot_loop.simps[of rc cfg n st])
        from ok Inr Again have q: "extends calm st st1" by simp
        from 1(1)[OF True t[symmetric] Inr Again rec] have "run_ok ''cot'' st1 (r, st')" .
        with q show ?thesis by (rule run_ok_after)
      qed
    qed
  qed
qed

lemma autonomous_loop_ok:
  "autonomous_loop cfg rc schemas n st = (r, st') \<Longrightarrow> run_ok ''autonomous'' st (r, st')"
proof (induction cfg rc schemas n st arbitrary: r st' rule: autonomous_loop.induct)
  case (1 cfg rc schemas n st)
  show ?case
  proof (cases "n < autonomous_maxSteps cfg")
    case False
    with 1(2) show ?thesis
      by (auto simp: autonomous_loop.simps[of cfg rc schemas n st] extends_refl)
  next
    case True
    obtain r1 st1 where t: "autonomous_turn cfg rc schemas st = (r1, st1)" by force
    from autonomous_turn_ok[OF t] have ok: "turn_ok ''autonomous'' st (r1, st1)" .
    show ?thesis
    proof (cases r1)
      case (Inl e)
      with 1(2) True t ok show ?thesis
        by (auto simp: autonomous_loop.simps[of cfg rc schemas n st] intro: run_ok_fail)
    next
      case (Inr f)
      show ?thesis
      proof (cases f)
        case (Return out)
        with 1(2) True t ok Inr show ?thesis
          by (auto simp: autonomous_loop.simps[of cfg rc schemas n st])
      next
        case (Again u)
        with 1(2) True t Inr have rec: "autonomous_loop cfg rc schemas (n + 1) st1 = (r, st')"
          by (simp add: autonomous_loop.simps[of cfg rc schemas n st])
        from ok Inr Again have q: "extends calm st st1" by simp
        from 1(1)[OF True t[symmetric] Inr Again rec]
        have "run_ok ''autonomous'' st1 (r, st')" .
        with q show ?thesis by (rule run_ok_after)
      qed
    qed
  qed
qed

lemma generate_loop_results:
  "generate_loop cfg rc n st = (r, st') \<Longrightarrow> extends is_result st st'"
proof (induction cfg rc n st arbitrary: r st' rule: generate_loop.induct)
  case (1 cfg rc n st)
  show ?case
  proof (cases "n < maxAnswerSteps cfg")
    case False
    with 1(2) show ?thesis by (auto simp: generate_loop.simps[of cfg rc n st] extends_refl)
  next
    case True
    obtain r1 st1 where t: "generate_turn rc st = (r1, st1)" by force
    from generate_turn_results[OF t] have q: "extends is_result st st1" .
    show ?thesis
    proof (cases r1)
      case (Inl e)
      with 1(2) True t q show ?thesis by (auto simp: generate_loop.simps[of cfg rc n st])
    next
      case (Inr f)
      show ?thesis
      proof (cases f)
        case (Return out)
        with 1(2) True t q Inr show ?thesis by (auto simp: generate_loop.simps[of cfg rc n st])
      next
        case (Again u)
        with 1(2) True t Inr have rec: "generate_loop cfg rc (n + 1) st1 = (r, st')"
          by (simp add: generate_loop.simps[of cfg rc n st])
        from 1(1)[OF True t[symmetric] Inr Again rec] q show ?thesis
          by (rule extends_trans[rotated])
      qed
    qed
  qed
qed

lemma task_loop_results:
  "task_loop rc task msgs n st = (r, st') \<Longrightarrow> extends is_result st st'"
proof (induction rc task msgs n st arbitrary: r st' rule: task_loop.induct)
  case (1 rc task msgs n st)
  show ?case
  proof (cases "n < 5")
    case False
    with 1(2) show ?thesis by (auto simp: task_loop.simps[of rc task msgs n st] extends_refl)
  next
    case True
    obtain r1 st1 where t: "task_turn rc msgs st = (r1, st1)" by force
    from task_turn_results[OF t] have q: "extends is_result st st1" .
    show ?thesis
    proof (cases r1)
      case (Inl e)
      with 1(2) True t q show ?thesis by (auto simp: task_loop.simps[of rc task msgs n st])
    next
      case (Inr f)
      show ?thesis
      proof (cases f)
        case (Return out)
        with 1(2) True t q Inr show ?thesis by (auto simp: task_loop.simps[of rc task msgs n st])
      next
        case (Again msgs2)
        with 1(2) True t Inr have rec: "task_loop rc task msgs2 (n + 1) st1 = (r, st')"
          by (simp add: task_loop.simps[of rc task msgs n st])
        from 1(1)[OF True t[symmetric] Inr Again rec] q show ?thesis
          by (rule extends_trans[rotated])
      qed
    qed
  qed
qed

subsection \<open>The engines\<close>

lemma react_execute_ok: "react_execute cfg rc st = (r, st') \<Longrightarrow> run_ok ''react'' st (r, st')"
  unfolding react_execute_def by (rule react_loop_ok)

lemma cot_execute_ok: "cot_execute cfg rc st = (r, st') \<Longrightarrow> run_ok ''cot'' st (r, st')"
proof -
  assume a: "cot_execute cfg rc st = (r, st')"
  obtain r1 st1 where cm: "callModel rc (injectInstruction cfg (messages st)) default_options st = (r1, st1)"
    by force
  from steps_callModel[OF cm] have s1: "steps st1 = steps st" .
  show ?thesis
  proof (cases r1)
    case (Inl e)
    with a cm s1 show ?thesis by (auto simp: cot_execute_def Let_def extends_same)
  next
    case (Inr response)
    define st3 where "st3 = (if useThinkingTags cfg
                         then (case extractThinking (content (resp_message response)) of
                                 None \<Rightarrow> push_message (resp_message response) st1
                               | Some thinking \<Rightarrow>
                                   if thinking \<noteq> []
                                   then pushStep (ThoughtStep thinking ''cot'')
                                          (push_message (resp_message response) st1)
                                   else push_message (resp_message response) st1)
                         else push_message (resp_message response) st1)"
    have q3: "extends calm st st3"
      using s1 by (auto simp: st3_def turn_simps split: option.splits)
    show ?thesis
    proof (cases "calls_of response = []")
      case True
      with a cm Inr have "r = Inr (extractText (content (resp_message response)))"
        and "st' = pushStep (ResponseStep (extractText (content (resp_message response))) ''cot'') st3"
        by (auto simp: cot_execute_def Let_def st3_def)
      with q3 show ?thesis by (simp only: run_ok_push)
    next
      case False
      obtain r4 st4 where ex: "executeToolCalls rc response st3 = (r4, st4)" by force
      from q3 results_calm[OF executeToolCalls_results[OF ex]] have q4: "extends calm st st4"
        by (rule extends_trans)
      show ?thesis
      proof (cases r4)
        case (Inl e)
        with a cm Inr False ex have "r = Inl e" and "st' = st4"
          by (auto simp: cot_execute_def Let_def st3_def)
        with q4 show ?thesis by (simp only: run_ok_fail)
      next
        case (Inr u)
        with a cm \<open>r1 = Inr response\<close> False ex have "cot_loop rc cfg 1 st4 = (r, st')"
          by (auto simp: cot_execute_def Let_def st3_def)
        from q4 cot_loop_ok[OF this] show ?thesis by (rule run_ok_after)
      qed
    qed
  qed
qed

lemma autonomous_execute_ok:
  "autonomous_execute cfg rc st = (r, st') \<Longrightarrow> run_ok ''autonomous'' st (r, st')"
  unfolding autonomous_execute_def Let_def by (rule autonomous_loop_ok)

lemma steps_makePlan: "makePlan cfg rc st = (r, st1) \<Longrightarrow> steps st1 = steps st"
  unfolding makePlan_def Let_def
  by (auto split: prod.splits sum.splits option.splits dest!: steps_callModel)

lemma steps_synthesize: "synthesize rc plan results st = (r, st1) \<Longrightarrow> steps st1 = steps st"
  unfolding synthesize_def Let_def
  by (auto split: prod.splits sum.splits dest!: steps_callModel)

lemma executeTask_results:
  "executeTask cfg rc task previous st = (r, st') \<Longrightarrow> extends is_result st st'"
  unfolding executeTask_def Let_def by (rule task_loop_results)

lemma extends_push: "calm s \<Longrightarrow> extends calm st (pushStep s st)"
  by (simp add: extends_def)

lemma extends_set_plan:
  assumes "extends calm st0 st" and "k = length (steps st0)"
  shows "extends calm st0 (set_plan k plan st)"
proof -
  from assms(1) obtain new where new: "steps st = steps st0 @ new" "list_all calm new"
    by (auto simp: extends_def)
  have "calm (PlanStep plan ''planner'')" by (simp add: calm_def)
  with new(2) have "list_all calm (new[0 := PlanStep plan ''planner''])"
    by (cases new) simp_all
  moreover have "steps (set_plan k plan st) = steps st0 @ new[0 := PlanStep plan ''planner'']"
    using new(1) assms(2) by (simp add: set_plan_def list_update_append)
  ultimately show ?thesis by (auto simp: extends_def)
qed

lemma plan_task_step_calm:
  assumes step: "plan_task_step cfg rc k visited task rest results n st = (r, st')"
    and base: "extends calm st0 st" and k: "k = length (steps st0)"
  shows "extends calm st0 st'"
proof -
  let ?task1 = "task\<lparr>status := InProgress\<rparr>"
  let ?st1 = "set_plan k (visited @ ?task1 # rest) st"
  let ?st2 = "pushStep (ThoughtStep (''Executing task ['' @ task_id ?task1 @ '']: ''
                   @ description ?task1) ''planner'') ?st1"
  have q1: "extends calm st0 ?st1" using base k by (rule extends_set_plan)
  have "extends calm ?st1 ?st2" by (rule extends_push) (simp add: calm_def)
  with q1 have q2: "extends calm st0 ?st2" by (rule extends_trans)
  obtain r3 st3 where ex: "executeTask cfg rc ?task1 results ?st2 = (r3, st3)" by force
  from q2 results_calm[OF executeTask_results[OF ex]] have q3: "extends calm st0 st3"
    by (rule extends_trans)
  show ?thesis
  proof (cases r3)
    case (Inl e)
    with step ex have "st' = set_plan k (visited @ ?task1\<lparr>status := Failed\<rparr> # rest) st3"
      by (auto simp: plan_task_step_def Let_def split: if_splits)
    with q3 k show ?thesis by (simp add: extends_set_plan)
  next
    case (Inr result)
    with step ex
    have "st' = set_plan k (visited @ ?task1\<lparr>status := Done, task_result := Some result\<rparr> # rest) st3"
      by (auto simp: plan_task_step_def Let_def)
    with q3 k show ?thesis by (simp add: extends_set_plan)
  qed
qed

lemma plan_loop_calm:
  "plan_loop cfg rc k todo visited results n st = (r, st') \<Longrightarrow> extends calm st0 st \<Longrightarrow>
     k = length (steps st0) \<Longrightarrow> extends calm st0 st'"
proof (induction todo arbitrary: visited results n st)
  case Nil
  then show ?case by simp
next
  case (Cons task rest)
  show ?case
  proof (cases "n \<ge> maxExecutionSteps cfg")
    case True
    with Cons.prems show ?thesis by simp
  next
    case False
    note notmax = this
    show ?thesis
    proof (cases "filter (\<lambda>dep. results dep = None) (deps_of task) \<noteq> []")
      case True
      with Cons.prems notmax
      have "plan_loop cfg rc k rest (visited @ [task]) results n st = (r, st')"
        by simp
      from Cons.IH[OF this Cons.prems(2) Cons.prems(3)] show ?thesis .
    next
      case False
      obtain r1 st1 where t: "plan_task_step cfg rc k visited task rest results n st = (r1, st1)"
        by force
      from plan_task_step_calm[OF t Cons.prems(2) Cons.prems(3)] have q: "extends calm st0 st1" .
      show ?thesis
      proof (cases r1)
        case (Inl e)
        with Cons.prems notmax False t q show ?thesis by simp
      next
        case (Inr v)
        obtain task1 results1 n1 where v: "v = (task1, results1, n1)" by (cases v) auto
        with Cons.prems notmax False t Inr
        have "plan_loop cfg rc k rest (visited @ [task1]) results1 n1 st1 = (r, st')" by simp
        from Cons.IH[OF this q Cons.prems(3)] show ?thesis .
      qed
    qed
  qed
qed

lemma planner_execute_ok:
  "planner_execute cfg rc st = (r, st') \<Longrightarrow> run_ok ''planner'' st (r, st')"
proof -
  assume a: "planner_execute cfg rc st = (r, st')"
  obtain r1 st1 where mp: "makePlan cfg rc st = (r1, st1)" by force
  from steps_makePlan[OF mp] have s1: "steps st1 = steps st" .
  show ?thesis
  proof (cases r1)
    case (Inl e)
    with a mp s1 show ?thesis by (auto simp: planner_execute_def extends_same)
  next
    case (Inr plan)
    have q2: "extends calm st (pushStep (PlanStep plan ''planner'') st1)"
      using s1 by (simp add: turn_simps)
    have k: "length (steps st1) = length (steps st)" using s1 by simp
    obtain r3 st3 where pl: "plan_loop cfg rc (length (steps st1)) plan [] Map.empty 0
        (pushStep (PlanStep plan ''planner'') st1) = (r3, st3)"
      by force
    from plan_loop_calm[OF pl q2 k] have q3: "extends calm st st3" .
    show ?thesis
    proof (cases r3)
      case (Inl e)
      with a mp \<open>r1 = Inr plan\<close> pl have "r = Inl e" and "st' = st3"
        by (auto simp: planner_execute_def Let_def)
      with q3 show ?thesis by (simp only: run_ok_fail)
    next
      case (Inr v)
      obtain visited results where v: "v = (visited, results)" by (cases v) auto
      obtain r4 st4 where sy: "synthesize rc visited results st3 = (r4, st4)" by force
      from steps_synthesize[OF sy] q3 have q4: "extends calm st st4" by (simp add: extends_def)
      show ?thesis
      proof (cases r4)
        case (Inl e)
        with a mp \<open>r1 = Inr plan\<close> pl \<open>r3 = Inr v\<close> v sy have "r = Inl e" and "st' = st4"
          by (auto simp: planner_execute_def Let_def)
        with q4 show ?thesis by (simp only: run_ok_fail)
      next
        case (Inr out)
        with a mp \<open>r1 = Inr plan\<close> pl \<open>r3 = Inr v\<close> v sy
        have "r = Inr out" and "st' = pushStep (ResponseStep out ''planner'') st4"
          by (auto simp: planner_execute_def Let_def)
        with q4 show ?thesis by (simp only: run_ok_push)
      qed
    qed
  qed
qed

lemma steps_reflect_critique:
  "reflect_critique cfg rc question answer st = (r, st1) \<Longrightarrow> steps st1 = steps st"
  unfolding reflect_critique_def Let_def
  by (auto split: prod.splits sum.splits dest!: steps_callModel)

lemma revise_results: "revise rc question answer c st = (r, st') \<Longrightarrow> extends is_result st st'"
  unfolding revise_def Let_def
  by (auto simp: turn_simps split: prod.splits sum.splits if_splits
      dest!: steps_callModel executeToolCalls_results)

lemma reflect_turn_calm: "reflect_turn cfg rc i answer st = (r, st') \<Longrightarrow> extends calm st st'"
  unfolding reflect_turn_def Let_def
  by (auto simp: turn_simps split: prod.splits sum.splits if_splits
      dest!: steps_reflect_critique revise_results)

lemma reflect_loop_calm: "reflect_loop cfg rc i answer st = (r, st') \<Longrightarrow> extends calm st st'"
proof (induction cfg rc i answer st arbitrary: r st' rule: reflect_loop.induct)
  case (1 cfg rc i answer st)
  show ?case
  proof (cases "i < maxReflections cfg")
    case False
    with 1(2) show ?thesis by (auto simp: reflect_loop.simps[of cfg rc i answer st] extends_refl)
  next
    case True
    obtain r1 st1 where t: "reflect_turn cfg rc i answer st = (r1, st1)" by force
    from reflect_turn_calm[OF t] have q: "extends calm st st1" .
    show ?thesis
    proof (cases r1)
      case (Inl e)
      with 1(2) True t q show ?thesis by (auto simp: reflect_loop.simps[of cfg rc i answer st])
    next
      case (Inr f)
      show ?thesis
      proof (cases f)
        case (Return out)
        with 1(2) True t q Inr show ?thesis
          by (auto simp: reflect_loop.simps[of cfg rc i answer st])
      next
        case (Again revised)
        with 1(2) True t Inr have rec: "reflect_loop cfg rc (i + 1) revised st1 = (r, st')"
          by (simp add: reflect_loop.simps[of cfg rc i answer st])
        from 1(1)[OF True t[symmetric] Inr Again rec] q show ?thesis
          by (rule extends_trans[rotated])
      qed
    qed
  qed
qed

lemma reflect_execute_ok:
  "reflect_execute cfg rc st = (r, st') \<Longrightarrow> run_ok ''reflect'' st (r, st')"
proof -
  assume a: "reflect_execute cfg rc st = (r, st')"
  obtain r1 st1 where g: "generateAnswer cfg rc st = (r1, st1)" by force
  from g have q1: "extends calm st st1"
    unfolding generateAnswer_def by (rule results_calm[OF generate_loop_results])
  show ?thesis
  proof (cases r1)
    case (Inl e)
    with a g have "r = Inl e" and "st' = st1" by (auto simp: reflect_execute_def)
    with q1 show ?thesis by (simp only: run_ok_fail)
  next
    case (Inr answer)
    let ?st2 = "pushStep (ThoughtStep ''Initial answer generated.'' ''reflect'') st1"
    have q2: "extends calm st ?st2" using q1 by (auto simp: turn_simps)
    obtain r3 st3 where l: "reflect_loop cfg rc 0 answer ?st2 = (r3, st3)" by force
    from q2 reflect_loop_calm[OF l] have q3: "extends calm st st3" by (rule extends_trans)
    show ?thesis
    proof (cases r3)
      case (Inl e)
      with a g \<open>r1 = Inr answer\<close> l have "r = Inl e" and "st' = st3"
        by (auto simp: reflect_execute_def Let_def)
      with q3 show ?thesis by (simp only: run_ok_fail)
    next
      case (Inr final)
      with a g \<open>r1 = Inr answer\<close> l
      have "r = Inr final" and "st' = pushStep (ResponseStep final ''reflect'') st3"
        by (auto simp: reflect_execute_def Let_def)
      with q3 show ?thesis by (simp only: run_ok_push)
    qed
  qed
qed

lemma engine_execute_ok:
  "engine_execute e rc st = (r, st') \<Longrightarrow> run_ok (engine_name e) st (r, st')"
  by (cases e)
     (auto dest: react_execute_ok cot_execute_ok planner_execute_ok reflect_execute_ok
        autonomous_execute_ok)

text \<open>
  C4. For every run of a built-in engine (ReAct, Chain-of-Thought, Planner, Reflect,
  Autonomous) that returns its final text: the steps pushed during the run end with the
  \<open>response\<close> step of that engine for the returned text, and no step pushed before it is
  a \<open>response\<close> step. So exactly one \<open>response\<close> step is pushed, and it is the last step.
\<close>

theorem response_step_once_and_last:
  assumes "engine_execute e rc st = (Inr text, st')"
  shows "\<exists>pre. steps st' = steps st @ pre @ [ResponseStep text (engine_name e)]
           \<and> (\<forall>s \<in> set pre. type_of s \<noteq> Response)"
  using engine_execute_ok[OF assms] by (auto simp: answered_def calm_def list_all_iff)

theorem response_step_once_and_last_witness:
  "fst react_example = Inr ''done''
   \<and> steps (snd react_example) =
       [ThoughtStep ''checking'' ''react'',
        ToolResultStep ''echo'' ''c1'' (JObj []) None ''runtime'',
        ResponseStep ''done'' ''react'']"
proof -
  have f: "fst react_example = Inr ''done''" by code_simp
  have s: "steps (snd react_example) =
       [ThoughtStep ''checking'' ''react'',
        ToolResultStep ''echo'' ''c1'' (JObj []) None ''runtime'',
        ResponseStep ''done'' ''react'']" by code_simp
  from f have run: "engine_execute (React \<lparr>react_maxSteps = 3\<rparr>)
      (example_rctx (scripted [calls_response ''checking'' [echo_call], text_response ''done'']) [])
      emptyState = (Inr ''done'', snd react_example)"
    unfolding react_example_def by (metis prod.collapse)
  from response_step_once_and_last[OF run] f s show ?thesis by simp
qed

text \<open>
  C9. For every run of a built-in engine, returning or throwing: no step pushed during
  the run is a \<open>tool_call\<close> step. (\<open>callTool\<close> builds one and pushes only the
  \<open>tool_result\<close> step.)
\<close>

theorem never_a_tool_call_step:
  assumes "engine_execute e rc st = (r, st')"
  shows "\<exists>new. steps st' = steps st @ new \<and> (\<forall>s \<in> set new. type_of s \<noteq> Tool_call)"
proof (cases r)
  case (Inl err)
  with engine_execute_ok[OF assms] show ?thesis by (auto simp: extends_def list_all_iff)
next
  case (Inr out)
  with engine_execute_ok[OF assms] obtain pre where
    "steps st' = steps st @ pre @ [ResponseStep out (engine_name e)]" and "list_all calm pre"
    by (auto simp: answered_def)
  then have "steps st' = steps st @ (pre @ [ResponseStep out (engine_name e)])
      \<and> (\<forall>s \<in> set (pre @ [ResponseStep out (engine_name e)]). type_of s \<noteq> Tool_call)"
    by (auto simp: calm_def list_all_iff)
  then show ?thesis by blast
qed

theorem never_a_tool_call_step_witness:
  "fst (autonomous_example [calls_response ''looking'' [echo_call], calls_response [] [finish_call]])
     = Inr ''X''
   \<and> map type_of (steps (snd (autonomous_example
          [calls_response ''looking'' [echo_call], calls_response [] [finish_call]])))
     = [Thought, Tool_result, Response]"
proof -
  let ?answers = "[calls_response ''looking'' [echo_call], calls_response [] [finish_call]]"
  have f: "fst (autonomous_example ?answers) = Inr ''X''" by code_simp
  have s: "map type_of (steps (snd (autonomous_example ?answers))) = [Thought, Tool_result, Response]"
    by code_simp
  have run: "engine_execute (Autonomous example_autonomous)
      (example_rctx (scripted ?answers) []) emptyState
      = (fst (autonomous_example ?answers), snd (autonomous_example ?answers))"
    unfolding autonomous_example_def by simp
  from never_a_tool_call_step[OF run] f s show ?thesis by simp
qed

subsection \<open>Reflect: an accepting critique\<close>











subsection \<open>Autonomous: a turn that calls finish\<close>

text \<open>
  C1 at a concrete turn: the model calls the registered tool \<open>echo\<close> and \<open>finish\<close> in the
  same turn. The run returns the \<open>result\<close> argument of \<open>finish\<close> and appends the tool
  message for the finish call, but \<open>echo\<close> is never executed: no \<open>tool_result\<close> step, no
  \<open>toolCalls\<close> pair and no tool message for it.
\<close>

theorem autonomous_finish_drops_other_calls:
  "fst (autonomous_example [calls_response [] [echo_call, finish_call]]) = Inr ''X''
   \<and> steps (snd (autonomous_example [calls_response [] [echo_call, finish_call]]))
       = [ResponseStep ''X'' ''autonomous'']
   \<and> toolCalls (snd (autonomous_example [calls_response [] [echo_call, finish_call]])) = []
   \<and> map role (messages (snd (autonomous_example [calls_response [] [echo_call, finish_call]])))
       = [Assistant, Tool]
   \<and> map toolCallId (messages (snd (autonomous_example [calls_response [] [echo_call, finish_call]])))
       = [None, Some ''c2'']"
  by code_simp

end
